theory Spec2Isabelle
  imports Main "HOL-Library.Word" "HOL-Library.Monad_Syntax"
begin

unbundle bit_operations_syntax

section \<open>\<^verbatim>\<open>pg_config.c\<close>: the output of pg_config as a set-returning function\<close>

text \<open>
  The development embeds \<^verbatim>\<open>src/pg_config.c\<close>: the static table \<^verbatim>\<open>ConfigData\<close>,
  \<^verbatim>\<open>get_configdata\<close> that fills its \<^verbatim>\<open>setting\<close> column, \<^verbatim>\<open>cleanup_path\<close>,
  \<^verbatim>\<open>conf_strlcat\<close>, and the SQL-callable \<^verbatim>\<open>pg_config\<close> that materialises the table
  as rows.

  C memory is explicit where the code depends on it. A \<^verbatim>\<open>char\<close> array is a list of
  bytes; a C string is the bytes up to the first NUL. A read or a write that leaves its
  array is undefined behaviour in C, and is the value \<open>None\<close> here, so that each result
  below of the form \<open>Some \<dots>\<close> says that the code stays inside its buffers.
  \<^verbatim>\<open>size_t\<close> values are natural numbers. In \<^verbatim>\<open>conf_strlcat\<close> the decrement of
  the first loop wraps around when \<^verbatim>\<open>n\<close> is 0, but \<^verbatim>\<open>n\<close> is assigned
  \<^verbatim>\<open>siz - dlen\<close> before it is read again, and \<^verbatim>\<open>dlen\<close> is at most \<^verbatim>\<open>siz\<close>; the
  second loop is entered with a positive \<^verbatim>\<open>n\<close> and decrements it only when it is not 1;
  the sum that is returned adds the lengths of two strings that are in memory together.
\<close>

subsection \<open>C strings and the library functions the file calls\<close>

type_synonym buffer = "char list"

definition NUL :: char where
  "NUL = CHR 0x00"

text \<open>The bytes of a string literal or of a string handed in by pointer: its characters and the
  terminator.\<close>

definition c_str :: "string \<Rightarrow> char list" where
  "c_str s = s @ [NUL]"

text \<open>\<^verbatim>\<open>strlen\<close>: the number of bytes before the terminator; running off the object without
  meeting one is undefined.\<close>

fun strlen :: "char list \<Rightarrow> nat option" where
  "strlen [] = None"
| "strlen (c # cs) = (if c = NUL then Some 0 else map_option Suc (strlen cs))"

text \<open>\<^verbatim>\<open>strcpy(dst, src)\<close>: copies up to and including the terminator of \<^verbatim>\<open>src\<close>, and
  leaves the rest of \<^verbatim>\<open>dst\<close> as it was. It does not know the size of \<^verbatim>\<open>dst\<close>: a source
  that does not fit writes past the end.\<close>

fun strcpy :: "buffer \<Rightarrow> char list \<Rightarrow> buffer option" where
  "strcpy dst [] = None"
| "strcpy [] (c # cs) = None"
| "strcpy (d # ds) (c # cs) =
     (if c = NUL then Some (NUL # ds) else map_option ((#) c) (strcpy ds cs))"

text \<open>\<^verbatim>\<open>strrchr(s, c)\<close>: the offset of the last occurrence of \<^verbatim>\<open>c\<close> in the string
  (\<open>Some (Some i)\<close>), or the null pointer (\<open>Some None\<close>).\<close>

fun strrchr :: "char list \<Rightarrow> char \<Rightarrow> nat option option" where
  "strrchr [] c = None"
| "strrchr (x # xs) c =
     (if x = NUL then Some (if c = NUL then Some 0 else None)
      else (case strrchr xs c of
              None \<Rightarrow> None
            | Some (Some i) \<Rightarrow> Some (Some (Suc i))
            | Some None \<Rightarrow> Some (if x = c then Some 0 else None)))"

text \<open>\<^verbatim>\<open>pstrdup\<close>: a fresh copy of the string that starts at the pointer.\<close>

fun pstrdup :: "char list \<Rightarrow> string option" where
  "pstrdup [] = None"
| "pstrdup (c # cs) = (if c = NUL then Some [] else map_option ((#) c) (pstrdup cs))"

subsection \<open>\<^verbatim>\<open>conf_strlcat\<close>\<close>

text \<open>
  The destination and the source are two objects: the only call of the file appends a
  string literal to a local array.

  \<^verbatim>\<open>while (n-- != 0 && *d != '\0') d++;\<close> The test on \<^verbatim>\<open>n\<close> comes first, so \<^verbatim>\<open>*d\<close> is
  read only while bytes are left; \<open>d\<close> is the offset \<^verbatim>\<open>d - dst\<close>.
\<close>

fun find_end :: "buffer \<Rightarrow> nat \<Rightarrow> nat \<Rightarrow> nat option" where
  "find_end dst d 0 = Some d"
| "find_end dst d (Suc n) =
     (if d < length dst
      then (if dst ! d \<noteq> NUL then find_end dst (Suc d) n else Some d)
      else None)"

text \<open>
  \<^verbatim>\<open>while (*s != '\0') { if (n != 1) { *d++ = *s; n--; } s++; }\<close> The fourth argument is
  the source from \<^verbatim>\<open>s\<close> on, the fifth is \<^verbatim>\<open>s - src\<close>. The result is the buffer, the
  offset \<^verbatim>\<open>d\<close> and \<^verbatim>\<open>s - src\<close> when the loop ends.
\<close>

fun copy_loop :: "buffer \<Rightarrow> nat \<Rightarrow> nat \<Rightarrow> char list \<Rightarrow> nat \<Rightarrow> (buffer \<times> nat \<times> nat) option" where
  "copy_loop dst d n [] k = None"
| "copy_loop dst d n (c # cs) k =
     (if c = NUL then Some (dst, d, k)
      else if n \<noteq> 1
      then (if d < length dst then copy_loop (dst[d := c]) (Suc d) (n - 1) cs (Suc k) else None)
      else copy_loop dst d n cs (Suc k))"

definition conf_strlcat :: "buffer \<Rightarrow> char list \<Rightarrow> nat \<Rightarrow> (buffer \<times> nat) option" where
  "conf_strlcat dst src siz = do {
     d \<leftarrow> find_end dst 0 siz;
     let dlen = d;
     let n = siz - dlen;
     if n = 0 then do { l \<leftarrow> strlen src; Some (dst, dlen + l) }
     else do {
       (dst', d', k) \<leftarrow> copy_loop dst d n src 0;
       if d' < length dst' then Some (dst'[d' := NUL], dlen + k) else None
     }
   }"

subsection \<open>What the build and the host supply\<close>

text \<open>
  The file is compiled against PostgreSQL and, on Windows, against the Win32 API. None of
  the following is defined in \<^verbatim>\<open>pg_config.c\<close>, so each is a parameter:
  \<^item> \<open>win32\<close>: whether \<^verbatim>\<open>WIN32\<close> is defined;
  \<^item> \<open>MAXPGPATH\<close>: the size of the local array \<^verbatim>\<open>path\<close>;
  \<^item> \<open>GetShortPathName\<close>: the short form of a path, or \<open>None\<close> when the call fails
    (the path does not exist, or the file system has no short names);
  \<^item> \<open>get_doc_path\<close> \<dots> \<open>get_etc_path\<close>: the string that the function of that name writes
    into its second argument, given the string in its first;
  \<^item> \<open>VAL_CONFIGURE\<close> \<dots> \<open>VAL_LIBS\<close>: the string literal of the macro, or \<open>None\<close> when the
    macro is not defined;
  \<^item> \<open>PG_VERSION\<close>: the string literal of the macro.
\<close>

record platform =
  win32 :: bool
  MAXPGPATH :: nat
  GetShortPathName :: "string \<Rightarrow> string option"
  get_doc_path :: "string \<Rightarrow> string"
  get_html_path :: "string \<Rightarrow> string"
  get_include_path :: "string \<Rightarrow> string"
  get_pkginclude_path :: "string \<Rightarrow> string"
  get_includeserver_path :: "string \<Rightarrow> string"
  get_lib_path :: "string \<Rightarrow> string"
  get_pkglib_path :: "string \<Rightarrow> string"
  get_locale_path :: "string \<Rightarrow> string"
  get_man_path :: "string \<Rightarrow> string"
  get_share_path :: "string \<Rightarrow> string"
  get_etc_path :: "string \<Rightarrow> string"
  VAL_CONFIGURE :: "string option"
  VAL_CC :: "string option"
  VAL_CPPFLAGS :: "string option"
  VAL_CFLAGS :: "string option"
  VAL_CFLAGS_SL :: "string option"
  VAL_LDFLAGS :: "string option"
  VAL_LDFLAGS_SL :: "string option"
  VAL_LIBS :: "string option"
  PG_VERSION :: string

subsection \<open>The table\<close>

text \<open>\<^verbatim>\<open>struct configdata\<close>: both fields are pointers, \<open>None\<close> is \<^verbatim>\<open>NULL\<close>.\<close>

record configdata =
  name :: "string option"
  setting :: "string option"

text \<open>The initialiser of the static array \<^verbatim>\<open>ConfigData\<close>. The array outlives every
  call, so the functions below take its current contents and return the new ones.\<close>

definition ConfigData :: "configdata list" where
  "ConfigData =
     [\<lparr>name = Some ''BINDIR'', setting = None\<rparr>,
      \<lparr>name = Some ''DOCDIR'', setting = None\<rparr>,
      \<lparr>name = Some ''HTMLDIR'', setting = None\<rparr>,
      \<lparr>name = Some ''INCLUDEDIR'', setting = None\<rparr>,
      \<lparr>name = Some ''PKGINCLUDEDIR'', setting = None\<rparr>,
      \<lparr>name = Some ''INCLUDEDIR-SERVER'', setting = None\<rparr>,
      \<lparr>name = Some ''LIBDIR'', setting = None\<rparr>,
      \<lparr>name = Some ''PKGLIBDIR'', setting = None\<rparr>,
      \<lparr>name = Some ''LOCALEDIR'', setting = None\<rparr>,
      \<lparr>name = Some ''MANDIR'', setting = None\<rparr>,
      \<lparr>name = Some ''SHAREDIR'', setting = None\<rparr>,
      \<lparr>name = Some ''SYSCONFDIR'', setting = None\<rparr>,
      \<lparr>name = Some ''PGXS'', setting = None\<rparr>,
      \<lparr>name = Some ''CONFIGURE'', setting = None\<rparr>,
      \<lparr>name = Some ''CC'', setting = None\<rparr>,
      \<lparr>name = Some ''CPPFLAGS'', setting = None\<rparr>,
      \<lparr>name = Some ''CFLAGS'', setting = None\<rparr>,
      \<lparr>name = Some ''CFLAGS_SL'', setting = None\<rparr>,
      \<lparr>name = Some ''LDFLAGS'', setting = None\<rparr>,
      \<lparr>name = Some ''LDFLAGS_SL'', setting = None\<rparr>,
      \<lparr>name = Some ''LIBS'', setting = None\<rparr>,
      \<lparr>name = Some ''VERSION'', setting = None\<rparr>,
      \<lparr>name = None, setting = None\<rparr>]"

subsection \<open>\<^verbatim>\<open>cleanup_path\<close>\<close>

text \<open>
  \<^verbatim>\<open>GetShortPathName(path, path, MAXPGPATH - 1)\<close>: source and destination are the same
  buffer, and the third argument is the room in it, terminator included. The call's return
  value is dropped; when it fails, or the short form needs more room, the buffer is as before.
\<close>

definition short_path :: "platform \<Rightarrow> buffer \<Rightarrow> buffer option" where
  "short_path P path = do {
     long \<leftarrow> pstrdup path;
     (case GetShortPathName P long of
        None \<Rightarrow> Some path
      | Some short \<Rightarrow>
          if length short + 1 \<le> MAXPGPATH P - 1 then strcpy path (c_str short)
          else Some path)
   }"

text \<open>\<^verbatim>\<open>for (ptr = path; *ptr; ptr++) if (*ptr == '\\') *ptr = '/';\<close>\<close>

fun replace_backslashes :: "char list \<Rightarrow> char list option" where
  "replace_backslashes [] = None"
| "replace_backslashes (c # cs) =
     (if c = NUL then Some (c # cs)
      else map_option ((#) (if c = CHR 0x5C then CHR ''/'' else c)) (replace_backslashes cs))"

text \<open>Outside \<^verbatim>\<open>#ifdef WIN32\<close> the body is empty.\<close>

definition cleanup_path :: "platform \<Rightarrow> buffer \<Rightarrow> buffer option" where
  "cleanup_path P path =
     (if win32 P then do { path \<leftarrow> short_path P path; replace_backslashes path }
      else Some path)"

subsection \<open>\<^verbatim>\<open>get_configdata\<close>\<close>

text \<open>\<^verbatim>\<open>ConfigData[i].setting = pstrdup(src)\<close>\<close>

definition set_setting :: "configdata list \<Rightarrow> nat \<Rightarrow> char list \<Rightarrow> configdata list option" where
  "set_setting T i src = do {
     s \<leftarrow> pstrdup src;
     if i < length T then Some (T[i := (T ! i)\<lparr>setting := Some s\<rparr>]) else None
   }"

text \<open>\<^verbatim>\<open>#ifdef VAL_X\<close> \<dots> \<^verbatim>\<open>pstrdup(VAL_X)\<close> \<^verbatim>\<open>#else\<close> \<dots> \<^verbatim>\<open>pstrdup("not recorded")\<close>:
  the literal that the preprocessor leaves in the call.\<close>

definition not_recorded :: "string option \<Rightarrow> string" where
  "not_recorded v = (case v of Some s \<Rightarrow> s | None \<Rightarrow> ''not recorded'')"

text \<open>
  The arguments are the build and host parameters, the global \<^verbatim>\<open>my_exec_path\<close> (the
  string in it; the function only reads it), the bytes \<open>junk\<close> that the uninitialised
  local array \<^verbatim>\<open>path\<close> happens to hold on entry, and the table. A call
  \<^verbatim>\<open>get_doc_path(my_exec_path, path)\<close> stores its string into \<^verbatim>\<open>path\<close> as a string
  copy does. The size passed to \<^verbatim>\<open>conf_strlcat\<close> is \<^verbatim>\<open>sizeof(path)\<close>.
\<close>

definition get_configdata ::
  "platform \<Rightarrow> string \<Rightarrow> (nat \<Rightarrow> char) \<Rightarrow> configdata list \<Rightarrow> configdata list option" where
  "get_configdata P my_exec_path junk T = do {
     let path = map junk [0..<MAXPGPATH P];

     path \<leftarrow> strcpy path (c_str my_exec_path);
     lastsep \<leftarrow> strrchr path (CHR ''/'');
     let path = (case lastsep of Some i \<Rightarrow> path[i := NUL] | None \<Rightarrow> path);
     path \<leftarrow> cleanup_path P path;
     T \<leftarrow> set_setting T 0 path;

     path \<leftarrow> strcpy path (c_str (get_doc_path P my_exec_path));
     path \<leftarrow> cleanup_path P path;
     T \<leftarrow> set_setting T 1 path;

     path \<leftarrow> strcpy path (c_str (get_html_path P my_exec_path));
     path \<leftarrow> cleanup_path P path;
     T \<leftarrow> set_setting T 2 path;

     path \<leftarrow> strcpy path (c_str (get_include_path P my_exec_path));
     path \<leftarrow> cleanup_path P path;
     T \<leftarrow> set_setting T 3 path;

     path \<leftarrow> strcpy path (c_str (get_pkginclude_path P my_exec_path));
     path \<leftarrow> cleanup_path P path;
     T \<leftarrow> set_setting T 4 path;

     path \<leftarrow> strcpy path (c_str (get_includeserver_path P my_exec_path));
     path \<leftarrow> cleanup_path P path;
     T \<leftarrow> set_setting T 5 path;

     path \<leftarrow> strcpy path (c_str (get_lib_path P my_exec_path));
     path \<leftarrow> cleanup_path P path;
     T \<leftarrow> set_setting T 6 path;

     path \<leftarrow> strcpy path (c_str (get_pkglib_path P my_exec_path));
     path \<leftarrow> cleanup_path P path;
     T \<leftarrow> set_setting T 7 path;

     path \<leftarrow> strcpy path (c_str (get_locale_path P my_exec_path));
     path \<leftarrow> cleanup_path P path;
     T \<leftarrow> set_setting T 8 path;

     path \<leftarrow> strcpy path (c_str (get_man_path P my_exec_path));
     path \<leftarrow> cleanup_path P path;
     T \<leftarrow> set_setting T 9 path;

     path \<leftarrow> strcpy path (c_str (get_share_path P my_exec_path));
     path \<leftarrow> cleanup_path P path;
     T \<leftarrow> set_setting T 10 path;

     path \<leftarrow> strcpy path (c_str (get_etc_path P my_exec_path));
     path \<leftarrow> cleanup_path P path;
     T \<leftarrow> set_setting T 11 path;

     path \<leftarrow> strcpy path (c_str (get_pkglib_path P my_exec_path));
     (path, _) \<leftarrow> conf_strlcat path (c_str ''/pgxs/src/makefiles/pgxs.mk'') (MAXPGPATH P);
     path \<leftarrow> cleanup_path P path;
     T \<leftarrow> set_setting T 12 path;

     T \<leftarrow> set_setting T 13 (c_str (not_recorded (VAL_CONFIGURE P)));
     T \<leftarrow> set_setting T 14 (c_str (not_recorded (VAL_CC P)));
     T \<leftarrow> set_setting T 15 (c_str (not_recorded (VAL_CPPFLAGS P)));
     T \<leftarrow> set_setting T 16 (c_str (not_recorded (VAL_CFLAGS P)));
     T \<leftarrow> set_setting T 17 (c_str (not_recorded (VAL_CFLAGS_SL P)));
     T \<leftarrow> set_setting T 18 (c_str (not_recorded (VAL_LDFLAGS P)));
     T \<leftarrow> set_setting T 19 (c_str (not_recorded (VAL_LDFLAGS_SL P)));
     T \<leftarrow> set_setting T 20 (c_str (not_recorded (VAL_LIBS P)));

     set_setting T 21 (c_str (''PostgreSQL '' @ PG_VERSION P))
   }"

subsection \<open>\<^verbatim>\<open>pg_config\<close>\<close>

text \<open>
  \<^verbatim>\<open>while (ConfigData[i].name) { \<dots> ++i; }\<close> from \<^verbatim>\<open>i = 0\<close>: one tuple per entry, built
  from the two pointers (a null \<^verbatim>\<open>setting\<close> would be an SQL null), until an entry without
  a name. An array without such an entry would be read past its end.
\<close>

fun emit_rows :: "configdata list \<Rightarrow> (string \<times> string option) list option" where
  "emit_rows [] = None"
| "emit_rows (e # es) =
     (case name e of
        None \<Rightarrow> Some []
      | Some n \<Rightarrow> map_option ((#) (n, setting e)) (emit_rows es))"

text \<open>
  From PostgreSQL's headers: \<^verbatim>\<open>Oid\<close> is an unsigned 32-bit integer, \<^verbatim>\<open>TEXTOID\<close> is 25,
  and the return modes are bits of an \<^verbatim>\<open>int\<close>. A tuple descriptor is used through
  \<^verbatim>\<open>natts\<close> and \<^verbatim>\<open>attrs[i]->atttypid\<close> only: it is the list of its columns' type ids.
\<close>

type_synonym Oid = "32 word"

definition TEXTOID :: Oid where
  "TEXTOID = 25"

type_synonym TupleDesc = "Oid list"

definition natts :: "TupleDesc \<Rightarrow> int" where
  "natts tupdesc = int (length tupdesc)"

definition SFRM_ValuePerCall :: "32 word" where
  "SFRM_ValuePerCall = 0x01"

definition SFRM_Materialize :: "32 word" where
  "SFRM_Materialize = 0x02"

record ReturnSetInfo =
  allowedModes :: "32 word"
  expectedDesc :: TupleDesc
  returnMode :: "32 word"
  setResult :: "(string \<times> string option) list option"
  setDesc :: "TupleDesc option"

text \<open>\<^verbatim>\<open>ereport(ERROR, \<dots>)\<close> does not return: the call ends with the error. The two reports
  of the file carry the same code and differ in their message.\<close>

datatype sqlstate = ERRCODE_SYNTAX_ERROR

datatype failure = Ereport sqlstate string | Undefined_Behaviour

definition UnsupportedContext :: failure where
  "UnsupportedContext =
     Ereport ERRCODE_SYNTAX_ERROR
       (''materialize mode required, but it is not '' @ ''allowed in this context'')"

definition SchemaMismatch :: failure where
  "SchemaMismatch =
     Ereport ERRCODE_SYNTAX_ERROR
       (''query-specified return tuple and '' @ ''function return type are not compatible'')"

text \<open>
  The fourth argument is \<^verbatim>\<open>fcinfo->resultinfo\<close> (\<open>None\<close> is the null pointer), the fifth
  the table before the call. The result is the table after the call and either the error
  raised or the \<^verbatim>\<open>ReturnSetInfo\<close> as the function leaves it, with the tuple store in
  \<open>setResult\<close>. The switches of memory context and the release of the descriptor's
  reference change nothing of this, and \<open>tupdesc\<close>, a copy of the expected descriptor,
  is that descriptor. In \<^verbatim>\<open>a || b || c\<close> the columns are looked at only when there are
  two of them.
\<close>

definition pg_config ::
  "platform \<Rightarrow> string \<Rightarrow> (nat \<Rightarrow> char) \<Rightarrow> ReturnSetInfo option \<Rightarrow> configdata list
     \<Rightarrow> configdata list \<times> (failure + ReturnSetInfo)" where
  "pg_config P my_exec_path junk resultinfo T =
     (case resultinfo of
        None \<Rightarrow> (T, Inl UnsupportedContext)
      | Some rsinfo \<Rightarrow>
          if allowedModes rsinfo AND SFRM_Materialize = 0 then (T, Inl UnsupportedContext)
          else
            let tupdesc = expectedDesc rsinfo in
            if natts tupdesc \<noteq> 2 \<or> tupdesc ! 0 \<noteq> TEXTOID \<or> tupdesc ! 1 \<noteq> TEXTOID
            then (T, Inl SchemaMismatch)
            else
              (case get_configdata P my_exec_path junk T of
                 None \<Rightarrow> (T, Inl Undefined_Behaviour)
               | Some T' \<Rightarrow>
                   (case emit_rows T' of
                      None \<Rightarrow> (T', Inl Undefined_Behaviour)
                    | Some tupstore \<Rightarrow>
                        (T', Inr (rsinfo\<lparr>returnMode := SFRM_Materialize,
                                         setResult := Some tupstore,
                                         setDesc := Some tupdesc\<rparr>)))))"

section \<open>Notions used to state and prove the properties\<close>

subsection \<open>Strings in buffers\<close>

text \<open>A buffer of \<open>M\<close> bytes holds the string \<open>s\<close>: the bytes of \<open>s\<close>, the terminator, and
  anything after it.\<close>

definition holds :: "nat \<Rightarrow> buffer \<Rightarrow> string \<Rightarrow> bool" where
  "holds M buf s \<longleftrightarrow> length buf = M \<and> NUL \<notin> set s \<and> (\<exists>g. buf = s @ NUL # g)"

text \<open>The length \<^const>\<open>conf_strlcat\<close> finds for the string in \<open>dst\<close>: it looks at no more
  than \<open>siz\<close> bytes, so it is \<^verbatim>\<open>min(strlen(dst), siz)\<close>.\<close>

definition strnlen :: "char list \<Rightarrow> nat \<Rightarrow> nat" where
  "strnlen dst siz = length (takeWhile (\<lambda>c. c \<noteq> NUL) (take siz dst))"

text \<open>A string that fits an array of \<open>MAXPGPATH\<close> bytes together with its terminator.\<close>

definition c_path :: "platform \<Rightarrow> string \<Rightarrow> bool" where
  "c_path P s \<longleftrightarrow> NUL \<notin> set s \<and> length s < MAXPGPATH P"

subsection \<open>The values of the table, as strings\<close>

text \<open>What is left of a path when it is cut at its last \<open>/\<close>; a path without one is kept.\<close>

definition strip_last_segment :: "string \<Rightarrow> string" where
  "strip_last_segment s =
     (if CHR ''/'' \<in> set s then rev (tl (dropWhile (\<lambda>c. c \<noteq> CHR ''/'') (rev s))) else s)"

definition backslash_to_slash :: "char \<Rightarrow> char" where
  "backslash_to_slash c = (if c = CHR 0x5C then CHR ''/'' else c)"

text \<open>The string that \<^const>\<open>cleanup_path\<close> leaves in a buffer that held \<open>s\<close>.\<close>

definition clean :: "platform \<Rightarrow> string \<Rightarrow> string" where
  "clean P s =
     (if win32 P
      then map backslash_to_slash
             (case GetShortPathName P s of
                None \<Rightarrow> s
              | Some short \<Rightarrow>
                  if length short + 1 \<le> MAXPGPATH P - 1
                  then takeWhile (\<lambda>c. c \<noteq> NUL) short else s)
      else s)"

text \<open>The string in the buffer after the call of \<^verbatim>\<open>GetShortPathName\<close> in
  \<^const>\<open>cleanup_path\<close>, when the buffer held \<open>s\<close>: the short form of \<open>s\<close> when the call
  gives one that fits, and \<open>s\<close> itself when it does not.\<close>

definition short_form :: "platform \<Rightarrow> string \<Rightarrow> string" where
  "short_form P s =
     (case GetShortPathName P s of
        None \<Rightarrow> s
      | Some short \<Rightarrow>
          if length short + 1 \<le> MAXPGPATH P - 1
          then takeWhile (\<lambda>c. c \<noteq> NUL) short else s)"

text \<open>\<^const>\<open>cleanup_path\<close> puts no other path in the place of \<open>s\<close>: the build is not for
  Windows, or the call of \<^verbatim>\<open>GetShortPathName\<close> leaves \<open>s\<close> in the buffer. Backslashes may
  still be replaced.\<close>

definition keeps_long_form :: "platform \<Rightarrow> string \<Rightarrow> bool" where
  "keeps_long_form P s \<longleftrightarrow> \<not> win32 P \<or> short_form P s = s"

text \<open>\<^const>\<open>cleanup_path\<close> leaves \<open>s\<close> as it is: the build is not for Windows, or what the
  call of \<^verbatim>\<open>GetShortPathName\<close> leaves in the buffer, with its backslashes replaced, is
  \<open>s\<close> again.\<close>

definition cleanup_keeps :: "platform \<Rightarrow> string \<Rightarrow> bool" where
  "cleanup_keeps P s \<longleftrightarrow> \<not> win32 P \<or> map backslash_to_slash (short_form P s) = s"

definition path_rules :: "platform \<Rightarrow> (string \<Rightarrow> string) list" where
  "path_rules P =
     [get_doc_path P, get_html_path P, get_include_path P, get_pkginclude_path P,
      get_includeserver_path P, get_lib_path P, get_pkglib_path P, get_locale_path P,
      get_man_path P, get_share_path P, get_etc_path P]"

definition literals :: "platform \<Rightarrow> string list" where
  "literals P =
     [not_recorded (VAL_CONFIGURE P), not_recorded (VAL_CC P), not_recorded (VAL_CPPFLAGS P),
      not_recorded (VAL_CFLAGS P), not_recorded (VAL_CFLAGS_SL P), not_recorded (VAL_LDFLAGS P),
      not_recorded (VAL_LDFLAGS_SL P), not_recorded (VAL_LIBS P),
      ''PostgreSQL '' @ PG_VERSION P]"

text \<open>
  What the host guarantees and C takes for granted: \<^verbatim>\<open>my_exec_path\<close> is a string in
  an array of \<open>MAXPGPATH\<close> bytes, each path function leaves such a string in the array it is
  given, and a string literal has no NUL inside.
\<close>

definition host_ok :: "platform \<Rightarrow> string \<Rightarrow> bool" where
  "host_ok P my_exec_path \<longleftrightarrow>
     c_path P my_exec_path \<and>
     (\<forall>f \<in> set (path_rules P). c_path P (f my_exec_path)) \<and>
     (\<forall>v \<in> set (literals P). NUL \<notin> set v)"

definition config_values :: "platform \<Rightarrow> string \<Rightarrow> string list" where
  "config_values P exec =
     [clean P (strip_last_segment exec),
      clean P (get_doc_path P exec),
      clean P (get_html_path P exec),
      clean P (get_include_path P exec),
      clean P (get_pkginclude_path P exec),
      clean P (get_includeserver_path P exec),
      clean P (get_lib_path P exec),
      clean P (get_pkglib_path P exec),
      clean P (get_locale_path P exec),
      clean P (get_man_path P exec),
      clean P (get_share_path P exec),
      clean P (get_etc_path P exec),
      clean P (take (MAXPGPATH P - 1) (get_pkglib_path P exec @ ''/pgxs/src/makefiles/pgxs.mk'')),
      not_recorded (VAL_CONFIGURE P),
      not_recorded (VAL_CC P),
      not_recorded (VAL_CPPFLAGS P),
      not_recorded (VAL_CFLAGS P),
      not_recorded (VAL_CFLAGS_SL P),
      not_recorded (VAL_LDFLAGS P),
      not_recorded (VAL_LDFLAGS_SL P),
      not_recorded (VAL_LIBS P),
      ''PostgreSQL '' @ PG_VERSION P]"

subsection \<open>Tables\<close>

definition config_names :: "string list" where
  "config_names =
     [''BINDIR'', ''DOCDIR'', ''HTMLDIR'', ''INCLUDEDIR'', ''PKGINCLUDEDIR'',
      ''INCLUDEDIR-SERVER'', ''LIBDIR'', ''PKGLIBDIR'', ''LOCALEDIR'', ''MANDIR'', ''SHAREDIR'',
      ''SYSCONFDIR'', ''PGXS'', ''CONFIGURE'', ''CC'', ''CPPFLAGS'', ''CFLAGS'', ''CFLAGS_SL'',
      ''LDFLAGS'', ''LDFLAGS_SL'', ''LIBS'', ''VERSION'']"

text \<open>
  The static array as any sequence of calls can have left it: no statement of the file
  assigns to a \<^verbatim>\<open>name\<close> or to the \<^verbatim>\<open>setting\<close> of the last entry, so these are as in
  the initialiser; the other settings are arbitrary.
\<close>

definition static_table :: "configdata list \<Rightarrow> bool" where
  "static_table T \<longleftrightarrow> map name T = map name ConfigData \<and> setting (T ! 22) = None"

definition store_values :: "string list \<Rightarrow> configdata list \<Rightarrow> configdata list" where
  "store_values vs T = map (\<lambda>(e, v). e\<lparr>setting := Some v\<rparr>) (zip T vs) @ drop (length vs) T"

definition table_of :: "string list \<Rightarrow> configdata list" where
  "table_of vs =
     map (\<lambda>(n, v). \<lparr>name = Some n, setting = Some v\<rparr>) (zip config_names vs) @
     [\<lparr>name = None, setting = None\<rparr>]"

subsection \<open>Callers\<close>

text \<open>The negation of the first test of \<^const>\<open>pg_config\<close>:
  \<^verbatim>\<open>!rsinfo || !(rsinfo->allowedModes & SFRM_Materialize)\<close>.\<close>

definition materialize_allowed :: "ReturnSetInfo option \<Rightarrow> bool" where
  "materialize_allowed resultinfo =
     (case resultinfo of
        None \<Rightarrow> False
      | Some rsinfo \<Rightarrow> allowedModes rsinfo AND SFRM_Materialize \<noteq> 0)"

text \<open>The relation between two rows that the specification states: the value of \<open>PGXS\<close>
  (entry 12) is the value of \<open>PKGLIBDIR\<close> (entry 7) followed by the suffix.\<close>

definition pgxs_is_pkglib_with_suffix :: "configdata list \<Rightarrow> bool" where
  "pgxs_is_pkglib_with_suffix T \<longleftrightarrow>
     setting (T ! 12) = map_option (\<lambda>v. v @ ''/pgxs/src/makefiles/pgxs.mk'') (setting (T ! 7))"

text \<open>The value of \<open>BINDIR\<close> (entry 0), and the relation that the specification states
  between it and \<^verbatim>\<open>my_exec_path\<close>: it is the path without its last segment.\<close>

definition bindir_value :: "configdata list \<Rightarrow> string option" where
  "bindir_value T = setting (T ! 0)"

definition bindir_is_stripped_exec_path :: "string \<Rightarrow> configdata list \<Rightarrow> bool" where
  "bindir_is_stripped_exec_path my_exec_path T \<longleftrightarrow>
     bindir_value T = Some (strip_last_segment my_exec_path)"

subsection \<open>A sample build and sample inputs\<close>

text \<open>
  A build for a POSIX system with PostgreSQL's \<open>MAXPGPATH\<close> of 1024, in which every
  directory is found from the directory above the one of the executable, as in a
  relocated installation. It instantiates the general results at concrete inputs.
\<close>

definition install_root :: "string \<Rightarrow> string" where
  "install_root exec = strip_last_segment (strip_last_segment exec)"

definition sample_build :: platform where
  "sample_build =
     \<lparr>win32 = False,
      MAXPGPATH = 1024,
      GetShortPathName = (\<lambda>long. None),
      get_doc_path = (\<lambda>exec. install_root exec @ ''/share/doc''),
      get_html_path = (\<lambda>exec. install_root exec @ ''/share/doc''),
      get_include_path = (\<lambda>exec. install_root exec @ ''/include''),
      get_pkginclude_path = (\<lambda>exec. install_root exec @ ''/include''),
      get_includeserver_path = (\<lambda>exec. install_root exec @ ''/include/server''),
      get_lib_path = (\<lambda>exec. install_root exec @ ''/lib''),
      get_pkglib_path = (\<lambda>exec. install_root exec @ ''/lib''),
      get_locale_path = (\<lambda>exec. install_root exec @ ''/share/locale''),
      get_man_path = (\<lambda>exec. install_root exec @ ''/share/man''),
      get_share_path = (\<lambda>exec. install_root exec @ ''/share''),
      get_etc_path = (\<lambda>exec. install_root exec @ ''/etc''),
      VAL_CONFIGURE = Some ''--prefix=/usr/local/pgsql'',
      VAL_CC = Some ''gcc'',
      VAL_CPPFLAGS = None,
      VAL_CFLAGS = Some ''-O2 -Wall'',
      VAL_CFLAGS_SL = Some ''-fpic'',
      VAL_LDFLAGS = None,
      VAL_LDFLAGS_SL = None,
      VAL_LIBS = Some ''-lz -lm'',
      PG_VERSION = ''9.0.1''\<rparr>"

text \<open>
  The same build for Windows, installed below \<open>C:/Program Files/pg\<close> on a file system with
  short names. The directories listed exist, and \<^verbatim>\<open>GetShortPathName\<close> gives for each the
  path with \<open>PROGRA~1\<close> in the place of \<open>Program Files\<close>; the makefiles of PGXS are not
  installed, and the call fails on every other path.
\<close>

definition program_files_dirs :: "string list" where
  "program_files_dirs =
     [''C:/Program Files/pg/bin'', ''C:/Program Files/pg/lib'', ''C:/Program Files/pg/include'',
      ''C:/Program Files/pg/share'']"

definition win32_build :: platform where
  "win32_build =
     sample_build
       \<lparr>win32 := True,
        GetShortPathName :=
          (\<lambda>long. if long \<in> set program_files_dirs
                   then Some (''C:/PROGRA~1'' @ drop 16 long) else None)\<rparr>"

definition program_files_postgres :: string where
  "program_files_postgres = ''C:/Program Files/pg/bin/postgres.exe''"

text \<open>An executable on another drive, with a backslash in its path.\<close>

definition d_drive_postgres :: string where
  "d_drive_postgres = ''D:'' @ CHR 0x5C # ''pg/bin/postgres.exe''"

definition usr_local_postgres :: string where
  "usr_local_postgres = ''/usr/local/pgsql/bin/postgres''"

text \<open>An executable below a directory with a name of 1000 characters: 1014 characters in
  all, which fit \<^verbatim>\<open>my_exec_path\<close>.\<close>

definition long_exec_path :: string where
  "long_exec_path = CHR ''/'' # replicate 1000 (CHR ''a'') @ ''/bin/postgres''"

text \<open>Two contents of the stack where \<^verbatim>\<open>path\<close> is allocated.\<close>

definition stack_junk :: "nat \<Rightarrow> char" where
  "stack_junk i = CHR ''x''"

definition other_junk :: "nat \<Rightarrow> char" where
  "other_junk i = (if even i then CHR ''y'' else NUL)"

text \<open>A caller that accepts a tuple store and expects two text columns, and three that differ
  from it in the allowed modes, in the expected columns, and in both.\<close>

definition text_pair_caller :: ReturnSetInfo where
  "text_pair_caller =
     \<lparr>allowedModes = SFRM_ValuePerCall OR SFRM_Materialize,
      expectedDesc = [TEXTOID, TEXTOID],
      returnMode = SFRM_ValuePerCall,
      setResult = None,
      setDesc = None\<rparr>"

definition value_per_call_caller :: ReturnSetInfo where
  "value_per_call_caller = text_pair_caller\<lparr>allowedModes := SFRM_ValuePerCall\<rparr>"

definition INT4OID :: Oid where
  "INT4OID = 23"

definition int_text_caller :: ReturnSetInfo where
  "int_text_caller = text_pair_caller\<lparr>expectedDesc := [INT4OID, TEXTOID]\<rparr>"

definition value_per_call_int_caller :: ReturnSetInfo where
  "value_per_call_int_caller = int_text_caller\<lparr>allowedModes := SFRM_ValuePerCall\<rparr>"

section \<open>Lemmas\<close>

subsection \<open>Library functions on buffers, and \<^verbatim>\<open>cleanup_path\<close>\<close>

lemma strcpy_prefix:
  "NUL \<notin> set s \<Longrightarrow> length s < length dst \<Longrightarrow>
   strcpy dst (s @ NUL # r) = Some (s @ NUL # drop (Suc (length s)) dst)"
proof (induction s arbitrary: dst)
  case Nil
  then show ?case by (cases dst) simp_all
next
  case (Cons c s)
  then show ?case by (cases dst) auto
qed

lemma strcpy_holds:
  assumes "NUL \<notin> set s" "length s < length dst"
  shows "\<exists>b. strcpy dst (c_str s) = Some b \<and> holds (length dst) b s"
  using assms strcpy_prefix[of s dst "[]"] by (auto simp: c_str_def holds_def)

lemma pstrdup_prefix: "NUL \<notin> set s \<Longrightarrow> pstrdup (s @ NUL # g) = Some s"
  by (induction s) auto

lemma pstrdup_holds: "holds M b s \<Longrightarrow> pstrdup b = Some s"
  by (auto simp: holds_def pstrdup_prefix)

lemma pstrdup_c_str: "NUL \<notin> set s \<Longrightarrow> pstrdup (c_str s) = Some s"
  by (simp add: c_str_def pstrdup_prefix)

lemma strrchr_absent:
  "NUL \<notin> set s \<Longrightarrow> c \<notin> set s \<Longrightarrow> c \<noteq> NUL \<Longrightarrow> strrchr (s @ NUL # g) c = Some None"
  by (induction s) auto

lemma strrchr_last:
  "NUL \<notin> set d \<Longrightarrow> NUL \<notin> set f \<Longrightarrow> c \<notin> set f \<Longrightarrow> c \<noteq> NUL \<Longrightarrow>
   strrchr (d @ c # f @ NUL # g) c = Some (Some (length d))"
  by (induction d) (auto simp: strrchr_absent)

lemma strip_last_segment_split:
  "CHR ''/'' \<notin> set f \<Longrightarrow> strip_last_segment (d @ CHR ''/'' # f) = d"
proof -
  assume f: "CHR ''/'' \<notin> set f"
  have "dropWhile (\<lambda>c. c \<noteq> CHR ''/'') (rev f @ CHR ''/'' # rev d) = CHR ''/'' # rev d"
    using f by (subst dropWhile_append2) auto
  then show ?thesis by (simp add: strip_last_segment_def)
qed

lemma NUL_not_slash: "CHR ''/'' \<noteq> NUL" "NUL \<noteq> CHR ''/''"
  by (simp_all add: NUL_def)

lemma cut_at_lastsep:
  assumes "holds M b s"
  shows "\<exists>r. strrchr b (CHR ''/'') = Some r \<and>
             holds M (case r of Some i \<Rightarrow> b[i := NUL] | None \<Rightarrow> b) (strip_last_segment s)"
proof (cases "CHR ''/'' \<in> set s")
  case False
  with assms show ?thesis
    by (auto simp: holds_def strrchr_absent strip_last_segment_def NUL_not_slash)
next
  case True
  then obtain d f where s: "s = d @ CHR ''/'' # f" and f: "CHR ''/'' \<notin> set f"
    by (auto dest: split_list_last)
  from assms obtain g where b: "b = s @ NUL # g" and n: "NUL \<notin> set s" and l: "length b = M"
    by (auto simp: holds_def)
  have r: "strrchr b (CHR ''/'') = Some (Some (length d))"
    using strrchr_last[of d f "CHR ''/''" g] n f by (simp add: b s NUL_not_slash)
  have u: "b[length d := NUL] = d @ NUL # (f @ NUL # g)"
    by (simp add: b s list_update_append)
  have "holds M (d @ NUL # (f @ NUL # g)) d"
    using n l by (simp add: holds_def b s)
  then show ?thesis
    using r u f by (simp add: s strip_last_segment_split)
qed

lemma c_str_split: "c_str t = takeWhile (\<lambda>c. c \<noteq> NUL) t @ NUL # tl (dropWhile (\<lambda>c. c \<noteq> NUL) (t @ [NUL]))"
proof (induction t)
  case Nil
  then show ?case by (simp add: c_str_def)
next
  case (Cons a t)
  then show ?case by (auto simp: c_str_def)
qed

lemma short_path_holds:
  assumes "holds (MAXPGPATH P) b s"
  shows "\<exists>b'. short_path P b = Some b' \<and>
          holds (MAXPGPATH P) b'
            (case GetShortPathName P s of
                None \<Rightarrow> s
              | Some short \<Rightarrow>
                  if length short + 1 \<le> MAXPGPATH P - 1
                  then takeWhile (\<lambda>c. c \<noteq> NUL) short else s)"
proof (cases "GetShortPathName P s")
  case None
  with assms show ?thesis by (simp add: short_path_def pstrdup_holds)
next
  case (Some t)
  show ?thesis
  proof (cases "length t + 1 \<le> MAXPGPATH P - 1")
    case False
    with Some assms show ?thesis by (simp add: short_path_def pstrdup_holds)
  next
    case True
    let ?u = "takeWhile (\<lambda>c. c \<noteq> NUL) t"
    have len: "length ?u < length b"
      using True assms length_takeWhile_le[of "\<lambda>c. c \<noteq> NUL" t] by (simp add: holds_def)
    have nn: "NUL \<notin> set ?u" by (auto dest: set_takeWhileD)
    have "strcpy b (c_str t) = Some (?u @ NUL # drop (Suc (length ?u)) b)"
      using strcpy_prefix[OF nn len] by (subst c_str_split) simp
    then have "short_path P b = Some (?u @ NUL # drop (Suc (length ?u)) b)"
      using Some True pstrdup_holds[OF assms] by (simp add: short_path_def)
    moreover have "holds (MAXPGPATH P) (?u @ NUL # drop (Suc (length ?u)) b) ?u"
      using nn len assms by (auto simp: holds_def)
    ultimately show ?thesis using Some True by simp
  qed
qed

lemma replace_backslashes_prefix:
  "NUL \<notin> set s \<Longrightarrow>
   replace_backslashes (s @ NUL # g) = Some (map backslash_to_slash s @ NUL # g)"
  by (induction s) (auto simp: backslash_to_slash_def)

lemma NUL_not_in_map_backslash: "NUL \<notin> set s \<Longrightarrow> NUL \<notin> backslash_to_slash ` set s"
  by (auto simp: backslash_to_slash_def NUL_def)

lemma cleanup_path_holds:
  assumes "holds (MAXPGPATH P) b s"
  shows "\<exists>b'. cleanup_path P b = Some b' \<and> holds (MAXPGPATH P) b' (clean P s)"
proof (cases "win32 P")
  case False
  with assms show ?thesis by (simp add: cleanup_path_def clean_def)
next
  case True
  from short_path_holds[OF assms] obtain b1 where
    1: "short_path P b = Some b1" and
    2: "holds (MAXPGPATH P) b1 (case GetShortPathName P s of
                None \<Rightarrow> s
              | Some short \<Rightarrow>
                  if length short + 1 \<le> MAXPGPATH P - 1
                  then takeWhile (\<lambda>c. c \<noteq> NUL) short else s)" (is "holds _ _ ?u")
    by blast
  from 2 obtain g where b1: "b1 = ?u @ NUL # g" and nn: "NUL \<notin> set ?u"
    and l: "length b1 = MAXPGPATH P" unfolding holds_def by blast
  have "replace_backslashes b1 = Some (map backslash_to_slash ?u @ NUL # g)"
    unfolding b1 using nn by (rule replace_backslashes_prefix)
  moreover have "holds (MAXPGPATH P) (map backslash_to_slash ?u @ NUL # g) (clean P s)"
    using l nn True unfolding holds_def b1 clean_def
    by (simp add: NUL_not_in_map_backslash)
  ultimately show ?thesis using 1 True by (simp add: cleanup_path_def)
qed

subsection \<open>The loops of \<^verbatim>\<open>conf_strlcat\<close>\<close>

lemma find_end_eq:
  "d + n \<le> length dst \<Longrightarrow>
   find_end dst d n = Some (d + length (takeWhile (\<lambda>c. c \<noteq> NUL) (take n (drop d dst))))"
proof (induction n arbitrary: d)
  case 0
  then show ?case by simp
next
  case (Suc n)
  then have d: "d < length dst" and step: "Suc d + n \<le> length dst" by simp_all
  have split: "drop d dst = dst ! d # drop (Suc d) dst"
    using d by (simp add: Cons_nth_drop_Suc)
  show ?case using d Suc.IH[OF step] by (simp add: split)
qed

lemma strlen_prefix: "NUL \<notin> set s \<Longrightarrow> strlen (s @ NUL # r) = Some (length s)"
  by (induction s) auto

lemma copy_loop_eq:
  "NUL \<notin> set t \<Longrightarrow> 0 < n \<Longrightarrow> d + n \<le> length dst \<Longrightarrow>
   copy_loop dst d n (t @ NUL # r) k =
     Some (take d dst @ take (n - 1) t @ drop (d + min (n - 1) (length t)) dst,
           d + min (n - 1) (length t), k + length t)"
proof (induction t arbitrary: dst d n k)
  case Nil
  then show ?case by simp
next
  case (Cons c t)
  then have c: "c \<noteq> NUL" and t: "NUL \<notin> set t" by auto
  show ?case
  proof (cases "n = 1")
    case True
    have "copy_loop dst d n ((c # t) @ NUL # r) k = copy_loop dst d n (t @ NUL # r) (Suc k)"
      using c True by simp
    also have "\<dots> = Some (take d dst @ take (n - 1) t @ drop (d + min (n - 1) (length t)) dst,
           d + min (n - 1) (length t), Suc k + length t)"
      using Cons.prems by (intro Cons.IH[OF t]) simp_all
    finally show ?thesis using True by simp
  next
    case False
    with Cons.prems have n2: "2 \<le> n" and d: "d < length dst" by simp_all
    let ?dst = "dst[d := c]"
    have "copy_loop dst d n ((c # t) @ NUL # r) k = copy_loop ?dst (Suc d) (n - 1) (t @ NUL # r) (Suc k)"
      using c False d by simp
    also have "\<dots> = Some (take (Suc d) ?dst @ take (n - 1 - 1) t @
                          drop (Suc d + min (n - 1 - 1) (length t)) ?dst,
           Suc d + min (n - 1 - 1) (length t), Suc k + length t)"
      using Cons.prems n2 by (intro Cons.IH[OF t]) simp_all
    also have "take (Suc d) ?dst = take d dst @ [c]"
      using d by (simp add: take_Suc_conv_app_nth)
    also have "drop (Suc d + min (n - 1 - 1) (length t)) ?dst = drop (Suc d + min (n - 1 - 1) (length t)) dst"
      by simp
    finally have step: "copy_loop dst d n ((c # t) @ NUL # r) k =
        Some ((take d dst @ [c]) @ take (n - 1 - 1) t @
                drop (Suc d + min (n - 1 - 1) (length t)) dst,
              Suc d + min (n - 1 - 1) (length t), Suc k + length t)" .
    have tk: "take (n - 1) (c # t) = c # take (n - 1 - 1) t"
      using n2 by (simp add: take_Cons')
    have mn: "min (n - 1) (length (c # t)) = Suc (min (n - 1 - 1) (length t))"
      using n2 by (cases n) auto
    show ?thesis unfolding step tk mn by simp
  qed
qed

lemma strnlen_le: "strnlen dst siz \<le> siz"
  unfolding strnlen_def
  by (rule order_trans[OF length_takeWhile_le]) simp

lemma conf_strlcat_full:
  assumes "siz \<le> length dst" "NUL \<notin> set s" "strnlen dst siz = siz"
  shows "conf_strlcat dst (s @ NUL # r) siz = Some (dst, siz + length s)"
  using assms find_end_eq[of 0 siz dst]
  by (simp add: conf_strlcat_def strnlen_def strlen_prefix)

lemma conf_strlcat_room:
  assumes siz: "siz \<le> length dst" and s: "NUL \<notin> set s" and room: "strnlen dst siz < siz"
  shows "conf_strlcat dst (s @ NUL # r) siz =
           Some (take (strnlen dst siz) dst @ take (siz - 1 - strnlen dst siz) s @
                 NUL # drop (Suc (strnlen dst siz + min (siz - 1 - strnlen dst siz) (length s))) dst,
                 strnlen dst siz + length s)"
proof -
  let ?dlen = "strnlen dst siz"
  let ?n = "siz - ?dlen"
  let ?m = "min (?n - 1) (length s)"
  have fe: "find_end dst 0 siz = Some ?dlen"
    using find_end_eq[of 0 siz dst] siz by (simp add: strnlen_def)
  have n: "0 < ?n" "?dlen + ?n \<le> length dst" using room siz by simp_all
  have cl: "copy_loop dst ?dlen ?n (s @ NUL # r) 0 =
      Some (take ?dlen dst @ take (?n - 1) s @ drop (?dlen + ?m) dst, ?dlen + ?m, 0 + length s)"
    by (rule copy_loop_eq[OF s n])
  have m: "?dlen + ?m < length dst" using room siz by arith
  have tk: "take (?n - 1) s = take ?m s" by (simp add: min_def)
  have len: "length (take ?dlen dst @ take ?m s) = ?dlen + ?m"
    using m by simp
  have upd: "(take ?dlen dst @ take ?m s @ drop (?dlen + ?m) dst)[?dlen + ?m := NUL] =
               take ?dlen dst @ take ?m s @ NUL # drop (Suc (?dlen + ?m)) dst"
  proof -
    let ?A = "take ?dlen dst @ take ?m s"
    have D: "drop (?dlen + ?m) dst = dst ! (?dlen + ?m) # drop (Suc (?dlen + ?m)) dst"
      using m by (simp add: Cons_nth_drop_Suc)
    have "(?A @ drop (?dlen + ?m) dst)[?dlen + ?m := NUL] = ?A @ (drop (?dlen + ?m) dst)[0 := NUL]"
      using len by (simp only: list_update_append) simp
    also have "\<dots> = ?A @ NUL # drop (Suc (?dlen + ?m)) dst"
      by (subst D) simp
    finally show ?thesis by simp
  qed
  have lenB: "length (take ?dlen dst @ take ?m s @ drop (?dlen + ?m) dst) = length dst"
    using m len by simp
  have sub: "siz - 1 - ?dlen = ?n - 1" by simp
  have pos: "siz - ?dlen \<noteq> 0" using room by simp
  have cl': "copy_loop dst ?dlen ?n (s @ NUL # r) 0 =
      Some (take ?dlen dst @ take ?m s @ drop (?dlen + ?m) dst, ?dlen + ?m, length s)"
    using cl unfolding tk by simp
  have "conf_strlcat dst (s @ NUL # r) siz =
      Some ((take ?dlen dst @ take ?m s @ drop (?dlen + ?m) dst)[?dlen + ?m := NUL],
            ?dlen + length s)"
    unfolding conf_strlcat_def fe using pos m
    by (simp only: bind.bind_lunit Let_def if_False cl' case_prod_conv lenB if_True)
  then show ?thesis unfolding upd sub tk .
qed

subsection \<open>\<^verbatim>\<open>conf_strlcat\<close> on a buffer that holds a string\<close>

lemma takeWhile_prefix_NUL: "NUL \<notin> set s \<Longrightarrow> takeWhile (\<lambda>c. c \<noteq> NUL) (s @ NUL # g) = s"
  by (induction s) auto

lemma conf_strlcat_holds:
  assumes b: "holds M b s" and t: "NUL \<notin> set t"
  shows "\<exists>b' n. conf_strlcat b (c_str t) M = Some (b', n) \<and> holds M b' (take (M - 1) (s @ t))"
proof -
  from b obtain g where bg: "b = s @ NUL # g" and s: "NUL \<notin> set s" and l: "length b = M"
    by (auto simp: holds_def)
  have dl: "strnlen b M = length s"
    using l[symmetric] by (simp add: strnlen_def bg takeWhile_prefix_NUL[OF s])
  have room: "strnlen b M < M" using l unfolding dl by (simp add: bg)
  let ?m = "min (M - 1 - length s) (length t)"
  have eq: "conf_strlcat b (t @ NUL # []) M =
      Some (take (length s) b @ take (M - 1 - length s) t @ NUL # drop (Suc (length s + ?m)) b,
            length s + length t)"
    using conf_strlcat_room[of M b t "[]"] l t room unfolding dl by simp
  have tk: "take (M - 1) (s @ t) = s @ take (M - 1 - length s) t"
    using l by (simp add: bg)
  have "holds M (take (length s) b @ take (M - 1 - length s) t @ NUL # drop (Suc (length s + ?m)) b)
          (take (M - 1) (s @ t))"
    unfolding holds_def tk
  proof (intro conjI)
    show "NUL \<notin> set (s @ take (M - 1 - length s) t)"
      using s t by (auto dest: in_set_takeD)
    show "\<exists>ga. take (length s) b @ take (M - 1 - length s) t @ NUL # drop (Suc (length s + ?m)) b =
              (s @ take (M - 1 - length s) t) @ NUL # ga"
      by (simp add: bg)
    show "length (take (length s) b @ take (M - 1 - length s) t @ NUL # drop (Suc (length s + ?m)) b) = M"
      using l by (simp add: bg)
  qed
  with eq show ?thesis by (auto simp: c_str_def)
qed

subsection \<open>\<^verbatim>\<open>get_configdata\<close>, statement by statement\<close>

lemma set_setting_holds:
  "holds M b s \<Longrightarrow> i < length T \<Longrightarrow>
   set_setting T i b = Some (T[i := (T ! i)\<lparr>setting := Some s\<rparr>])"
  by (simp add: set_setting_def pstrdup_holds)

lemma set_setting_literal:
  "NUL \<notin> set s \<Longrightarrow> i < length T \<Longrightarrow>
   set_setting T i (c_str s) = Some (T[i := (T ! i)\<lparr>setting := Some s\<rparr>])"
  by (simp add: set_setting_def pstrdup_c_str)

lemma holds_length: "holds M b s \<Longrightarrow> length b = M"
  by (simp add: holds_def)

lemma path_step:
  assumes v: "c_path P v" and b: "length b = MAXPGPATH P" and i: "i < length T"
    and K: "\<And>b'. length b' = MAXPGPATH P \<Longrightarrow>
              K b' (T[i := (T ! i)\<lparr>setting := Some (clean P v)\<rparr>]) = R"
  shows "(strcpy b (c_str v) \<bind> (\<lambda>path. cleanup_path P path \<bind>
            (\<lambda>path. set_setting T i path \<bind> (\<lambda>T'. K path T')))) = R"
proof -
  from v b have "NUL \<notin> set v" "length v < length b" by (simp_all add: c_path_def)
  from strcpy_holds[OF this] obtain b1 where
    1: "strcpy b (c_str v) = Some b1" and h1: "holds (MAXPGPATH P) b1 v" using b by auto
  from cleanup_path_holds[OF h1] obtain b2 where
    2: "cleanup_path P b1 = Some b2" and h2: "holds (MAXPGPATH P) b2 (clean P v)" by auto
  show ?thesis
    by (simp only: 1 2 bind.bind_lunit set_setting_holds[OF h2 i] K[OF holds_length[OF h2]])
qed

lemma first_step:
  assumes v: "c_path P v" and b: "length b = MAXPGPATH P" and i: "i < length T"
    and K: "\<And>b'. length b' = MAXPGPATH P \<Longrightarrow>
              K b' (T[i := (T ! i)\<lparr>setting := Some (clean P (strip_last_segment v))\<rparr>]) = R"
  shows "(strcpy b (c_str v) \<bind> (\<lambda>path. strrchr path (CHR ''/'') \<bind>
            (\<lambda>lastsep.
               cleanup_path P (case lastsep of None \<Rightarrow> path | Some i \<Rightarrow> path[i := NUL]) \<bind>
            (\<lambda>path. set_setting T i path \<bind> (\<lambda>T'. K path T'))))) = R"
proof -
  from v b have "NUL \<notin> set v" "length v < length b" by (simp_all add: c_path_def)
  from strcpy_holds[OF this] obtain b1 where
    1: "strcpy b (c_str v) = Some b1" and h1: "holds (MAXPGPATH P) b1 v" using b by auto
  from cut_at_lastsep[OF h1] obtain r where
    r: "strrchr b1 (CHR ''/'') = Some r" and
    hr: "holds (MAXPGPATH P) (case r of Some i \<Rightarrow> b1[i := NUL] | None \<Rightarrow> b1) (strip_last_segment v)"
    by auto
  from cleanup_path_holds[OF hr] obtain b2 where
    2: "cleanup_path P (case r of Some i \<Rightarrow> b1[i := NUL] | None \<Rightarrow> b1) = Some b2"
    and h2: "holds (MAXPGPATH P) b2 (clean P (strip_last_segment v))" by auto
  show ?thesis
    by (simp only: 1 r 2 bind.bind_lunit set_setting_holds[OF h2 i] K[OF holds_length[OF h2]])
qed

lemma pgxs_step:
  assumes v: "c_path P v" and t: "NUL \<notin> set t" and b: "length b = MAXPGPATH P"
    and i: "i < length T"
    and K: "\<And>b'. length b' = MAXPGPATH P \<Longrightarrow>
              K b' (T[i := (T ! i)\<lparr>setting := Some (clean P (take (MAXPGPATH P - 1) (v @ t)))\<rparr>]) = R"
  shows "(strcpy b (c_str v) \<bind> (\<lambda>path. conf_strlcat path (c_str t) (MAXPGPATH P) \<bind>
            (\<lambda>(path, _). cleanup_path P path \<bind>
            (\<lambda>path. set_setting T i path \<bind> (\<lambda>T'. K path T'))))) = R"
proof -
  from v b have "NUL \<notin> set v" "length v < length b" by (simp_all add: c_path_def)
  from strcpy_holds[OF this] obtain b1 where
    1: "strcpy b (c_str v) = Some b1" and h1: "holds (MAXPGPATH P) b1 v" using b by auto
  from conf_strlcat_holds[OF h1 t] obtain b2 n where
    c: "conf_strlcat b1 (c_str t) (MAXPGPATH P) = Some (b2, n)"
    and h2: "holds (MAXPGPATH P) b2 (take (MAXPGPATH P - 1) (v @ t))" by auto
  from cleanup_path_holds[OF h2] obtain b3 where
    3: "cleanup_path P b2 = Some b3"
    and h3: "holds (MAXPGPATH P) b3 (clean P (take (MAXPGPATH P - 1) (v @ t)))" by auto
  show ?thesis
    by (simp only: 1 c 3 bind.bind_lunit case_prod_conv set_setting_holds[OF h3 i]
          K[OF holds_length[OF h3]])
qed

lemma suffix_no_NUL: "NUL \<notin> set ''/pgxs/src/makefiles/pgxs.mk''"
  by (simp add: NUL_def)

lemma get_configdata_explicit:
  assumes ok: "host_ok P exec"
    and T: "T = [t0, t1, t2, t3, t4, t5, t6, t7, t8, t9, t10, t11, t12, t13, t14, t15, t16,
                 t17, t18, t19, t20, t21, t22]"
  shows "get_configdata P exec junk T = Some (store_values (config_values P exec) T)"
proof -
  from ok have e: "c_path P exec"
    and p: "c_path P (get_doc_path P exec)" "c_path P (get_html_path P exec)"
      "c_path P (get_include_path P exec)" "c_path P (get_pkginclude_path P exec)"
      "c_path P (get_includeserver_path P exec)" "c_path P (get_lib_path P exec)"
      "c_path P (get_pkglib_path P exec)" "c_path P (get_locale_path P exec)"
      "c_path P (get_man_path P exec)" "c_path P (get_share_path P exec)"
      "c_path P (get_etc_path P exec)"
    and l: "NUL \<notin> set (not_recorded (VAL_CONFIGURE P))" "NUL \<notin> set (not_recorded (VAL_CC P))"
      "NUL \<notin> set (not_recorded (VAL_CPPFLAGS P))" "NUL \<notin> set (not_recorded (VAL_CFLAGS P))"
      "NUL \<notin> set (not_recorded (VAL_CFLAGS_SL P))" "NUL \<notin> set (not_recorded (VAL_LDFLAGS P))"
      "NUL \<notin> set (not_recorded (VAL_LDFLAGS_SL P))" "NUL \<notin> set (not_recorded (VAL_LIBS P))"
      "NUL \<notin> set (''PostgreSQL '' @ PG_VERSION P)"
    by (simp_all add: host_ok_def path_rules_def literals_def)
  show ?thesis
    unfolding get_configdata_def Let_def T
    apply (rule first_step[OF e]; simp)
    apply (rule path_step[OF p(1)]; simp)
    apply (rule path_step[OF p(2)]; simp)
    apply (rule path_step[OF p(3)]; simp)
    apply (rule path_step[OF p(4)]; simp)
    apply (rule path_step[OF p(5)]; simp)
    apply (rule path_step[OF p(6)]; simp)
    apply (rule path_step[OF p(7)]; simp)
    apply (rule path_step[OF p(8)]; simp)
    apply (rule path_step[OF p(9)]; simp)
    apply (rule path_step[OF p(10)]; simp)
    apply (rule path_step[OF p(11)]; simp)
    apply (rule pgxs_step[OF p(7) suffix_no_NUL]; simp)
    using l
    apply (simp add: set_setting_literal store_values_def config_values_def path_rules_def literals_def)
    done
qed

subsection \<open>The table after \<^verbatim>\<open>get_configdata\<close>\<close>

lemma upt_23: "[0..<23] = [0, 1, 2, 3, 4, 5, 6, 7, 8, 9, 10, 11, 12, 13, 14, 15, 16, 17, 18, 19,
                          20, 21, 22 :: nat]"
  by code_simp

lemma upt_22: "[0..<22] = [0, 1, 2, 3, 4, 5, 6, 7, 8, 9, 10, 11, 12, 13, 14, 15, 16, 17, 18, 19,
                          20, 21 :: nat]"
  by code_simp

lemma list_23:
  assumes "length T = 23"
  shows "T = [T ! 0, T ! 1, T ! 2, T ! 3, T ! 4, T ! 5, T ! 6, T ! 7, T ! 8, T ! 9, T ! 10,
              T ! 11, T ! 12, T ! 13, T ! 14, T ! 15, T ! 16, T ! 17, T ! 18, T ! 19, T ! 20,
              T ! 21, T ! 22]"
proof -
  have "T = map ((!) T) [0..<length T]" by (simp add: map_nth)
  then show ?thesis unfolding assms upt_23 by simp
qed

lemma list_22:
  assumes "length T = 22"
  shows "T = [T ! 0, T ! 1, T ! 2, T ! 3, T ! 4, T ! 5, T ! 6, T ! 7, T ! 8, T ! 9, T ! 10,
              T ! 11, T ! 12, T ! 13, T ! 14, T ! 15, T ! 16, T ! 17, T ! 18, T ! 19, T ! 20,
              T ! 21]"
proof -
  have "T = map ((!) T) [0..<length T]" by (simp add: map_nth)
  then show ?thesis unfolding assms upt_22 by simp
qed

lemma static_table_length: "static_table T \<Longrightarrow> length T = 23"
proof -
  assume "static_table T"
  then have "length (map name T) = length (map name ConfigData)" by (simp add: static_table_def)
  then show ?thesis by (simp add: ConfigData_def)
qed

lemma get_configdata_populated:
  assumes "host_ok P exec" and "length T = 23"
  shows "get_configdata P exec junk T = Some (store_values (config_values P exec) T)"
  by (rule get_configdata_explicit[OF assms(1) list_23[OF assms(2)]])

lemma length_config_values: "length (config_values P exec) = 22"
  by (simp add: config_values_def path_rules_def literals_def)

lemma named_entry:
  "name e = Some n \<Longrightarrow> e\<lparr>setting := Some v\<rparr> = \<lparr>name = Some n, setting = Some v\<rparr>"
  by (cases e) simp

lemma sentinel_entry:
  "name e = None \<Longrightarrow> setting e = None \<Longrightarrow> e = \<lparr>name = None, setting = None\<rparr>"
  by (cases e) simp

lemma store_values_explicit:
  assumes "map name [t0, t1, t2, t3, t4, t5, t6, t7, t8, t9, t10, t11, t12, t13, t14, t15, t16, t17, t18, t19, t20, t21, t22] = map name ConfigData"
    and "setting t22 = None"
  shows "store_values [v0, v1, v2, v3, v4, v5, v6, v7, v8, v9, v10, v11, v12, v13, v14, v15, v16, v17, v18, v19, v20, v21]
           [t0, t1, t2, t3, t4, t5, t6, t7, t8, t9, t10, t11, t12, t13, t14, t15, t16, t17, t18, t19, t20, t21, t22] =
         table_of [v0, v1, v2, v3, v4, v5, v6, v7, v8, v9, v10, v11, v12, v13, v14, v15, v16, v17, v18, v19, v20, v21]"
  using assms
  by (simp add: store_values_def table_of_def config_names_def ConfigData_def
        named_entry sentinel_entry)

lemma store_values_static:
  assumes T: "static_table T" and vs: "length vs = 22"
  shows "store_values vs T = table_of vs"
proof -
  let ?T = "[T ! 0, T ! 1, T ! 2, T ! 3, T ! 4, T ! 5, T ! 6, T ! 7, T ! 8, T ! 9, T ! 10, T ! 11, T ! 12, T ! 13, T ! 14, T ! 15, T ! 16, T ! 17, T ! 18, T ! 19, T ! 20, T ! 21, T ! 22]"
  let ?vs = "[vs ! 0, vs ! 1, vs ! 2, vs ! 3, vs ! 4, vs ! 5, vs ! 6, vs ! 7, vs ! 8, vs ! 9, vs ! 10, vs ! 11, vs ! 12, vs ! 13, vs ! 14, vs ! 15, vs ! 16, vs ! 17, vs ! 18, vs ! 19, vs ! 20, vs ! 21]"
  have Teq: "T = ?T" by (rule list_23[OF static_table_length[OF T]])
  have veq: "vs = ?vs" by (rule list_22[OF vs])
  have names: "map name ?T = map name ConfigData" and s: "setting (T ! 22) = None"
    using T Teq by (simp_all only: static_table_def)
  have "store_values vs T = store_values ?vs ?T"
    by (rule arg_cong2[where f = store_values, OF veq Teq])
  also have "\<dots> = table_of ?vs"
    by (rule store_values_explicit[OF names s])
  also have "\<dots> = table_of vs"
    by (rule arg_cong[where f = table_of, OF veq[symmetric]])
  finally show ?thesis .
qed

lemma emit_rows_table_of:
  assumes "length vs = 22"
  shows "emit_rows (table_of vs) = Some (zip config_names (map Some vs))"
proof -
  let ?vs = "[vs ! 0, vs ! 1, vs ! 2, vs ! 3, vs ! 4, vs ! 5, vs ! 6, vs ! 7, vs ! 8, vs ! 9, vs ! 10, vs ! 11, vs ! 12, vs ! 13, vs ! 14, vs ! 15, vs ! 16, vs ! 17, vs ! 18, vs ! 19, vs ! 20, vs ! 21]"
  have veq: "vs = ?vs" by (rule list_22[OF assms])
  have "emit_rows (table_of ?vs) = Some (zip config_names (map Some ?vs))"
    by (simp add: table_of_def config_names_def)
  then show ?thesis by (simp only: veq[symmetric])
qed

lemma static_table_table_of: "length vs = 22 \<Longrightarrow> static_table (table_of vs)"
proof -
  assume vs: "length vs = 22"
  let ?vs = "[vs ! 0, vs ! 1, vs ! 2, vs ! 3, vs ! 4, vs ! 5, vs ! 6, vs ! 7, vs ! 8, vs ! 9, vs ! 10, vs ! 11, vs ! 12, vs ! 13, vs ! 14, vs ! 15, vs ! 16, vs ! 17, vs ! 18, vs ! 19, vs ! 20, vs ! 21]"
  have veq: "vs = ?vs" by (rule list_22[OF vs])
  have "static_table (table_of ?vs)"
    by (simp add: static_table_def table_of_def config_names_def ConfigData_def)
  then show ?thesis by (simp only: veq[symmetric])
qed

lemma table_of_nth:
  assumes "length vs = 22" and "i < 22"
  shows "table_of vs ! i = \<lparr>name = Some (config_names ! i), setting = Some (vs ! i)\<rparr>"
proof -
  have l: "length (zip config_names vs) = 22" using assms(1) by (simp add: config_names_def)
  have "table_of vs ! i = map (\<lambda>(n, v). \<lparr>name = Some n, setting = Some v\<rparr>) (zip config_names vs) ! i"
    unfolding table_of_def using l assms(2) by (simp add: nth_append)
  also have "\<dots> = \<lparr>name = Some (config_names ! i), setting = Some (vs ! i)\<rparr>"
    using l assms by (simp add: config_names_def)
  finally show ?thesis .
qed

lemma populate_result:
  assumes "host_ok P exec" and "static_table T"
  shows "get_configdata P exec junk T = Some (table_of (config_values P exec))"
  using get_configdata_populated[OF assms(1) static_table_length[OF assms(2)]]
    store_values_static[OF assms(2) length_config_values] by simp

subsection \<open>The sample inputs\<close>

lemma install_root_usr: "install_root usr_local_postgres = ''/usr/local/pgsql''"
  by (simp add: install_root_def usr_local_postgres_def strip_last_segment_def)

lemma host_ok_usr: "host_ok sample_build usr_local_postgres"
  by (simp add: host_ok_def c_path_def path_rules_def literals_def sample_build_def
      install_root_usr not_recorded_def NUL_def)
    (simp add: usr_local_postgres_def)

lemma static_table_ConfigData: "static_table ConfigData"
  by (simp add: static_table_def ConfigData_def)

subsection \<open>Entries of the populated table\<close>

lemma map_backslash_id: "CHR 0x5C \<notin> set s \<Longrightarrow> map backslash_to_slash s = s"
  by (induction s) (auto simp: backslash_to_slash_def)

lemma clean_short_form:
  "clean P s = (if win32 P then map backslash_to_slash (short_form P s) else s)"
  by (simp add: clean_def short_form_def)

lemma clean_keeps: "clean P s = s \<longleftrightarrow> cleanup_keeps P s"
  by (auto simp: cleanup_keeps_def clean_short_form)

lemma clean_long_form:
  "keeps_long_form P s \<Longrightarrow> clean P s = (if win32 P then map backslash_to_slash s else s)"
  by (auto simp: keeps_long_form_def clean_short_form)

lemma suffix_no_backslash:
  "map backslash_to_slash ''/pgxs/src/makefiles/pgxs.mk'' = ''/pgxs/src/makefiles/pgxs.mk''"
  by (simp add: backslash_to_slash_def)

lemma clean_cut_with_suffix:
  assumes "keeps_long_form P v" and "keeps_long_form P (take n (v @ ''/pgxs/src/makefiles/pgxs.mk''))"
  shows "clean P (take n (v @ ''/pgxs/src/makefiles/pgxs.mk'')) =
           take n (clean P v @ ''/pgxs/src/makefiles/pgxs.mk'')"
proof (cases "win32 P")
  case False
  then show ?thesis by (simp only: clean_long_form[OF assms(1)] clean_long_form[OF assms(2)] if_False)
next
  case True
  have "map backslash_to_slash (take n (v @ ''/pgxs/src/makefiles/pgxs.mk'')) =
          take n (map backslash_to_slash v @ map backslash_to_slash ''/pgxs/src/makefiles/pgxs.mk'')"
    by (metis take_map map_append)
  then show ?thesis
    using True
    by (simp only: clean_long_form[OF assms(1)] clean_long_form[OF assms(2)] if_True
        suffix_no_backslash)
qed

lemma length_clean_long_form: "keeps_long_form P s \<Longrightarrow> length (clean P s) = length s"
  by (simp add: clean_long_form)

lemma install_root_program_files: "install_root program_files_postgres = ''C:/Program Files/pg''"
  by (simp add: install_root_def program_files_postgres_def strip_last_segment_def)

lemma host_ok_program_files: "host_ok win32_build program_files_postgres"
  by (simp add: host_ok_def c_path_def path_rules_def literals_def win32_build_def
      sample_build_def install_root_program_files not_recorded_def NUL_def)
    (simp add: program_files_postgres_def)

lemma install_root_d_drive: "install_root d_drive_postgres = ''D:'' @ CHR 0x5C # ''pg''"
  by (simp add: install_root_def d_drive_postgres_def strip_last_segment_def)

lemma host_ok_d_drive: "host_ok win32_build d_drive_postgres"
  by (simp add: host_ok_def c_path_def path_rules_def literals_def win32_build_def
      sample_build_def install_root_d_drive not_recorded_def NUL_def)
    (simp add: d_drive_postgres_def)

lemma config_values_nth:
  "config_values P exec ! 0 = clean P (strip_last_segment exec)"
  "config_values P exec ! 7 = clean P (get_pkglib_path P exec)"
  "config_values P exec ! 12 =
     clean P (take (MAXPGPATH P - 1) (get_pkglib_path P exec @ ''/pgxs/src/makefiles/pgxs.mk''))"
  "config_values P exec ! 21 = ''PostgreSQL '' @ PG_VERSION P"
  by (simp_all add: config_values_def)

lemma setting_table_of:
  "length vs = 22 \<Longrightarrow> i < 22 \<Longrightarrow> setting (table_of vs ! i) = Some (vs ! i)"
  by (simp add: table_of_nth)

lemma name_table_of:
  "length vs = 22 \<Longrightarrow> i < 22 \<Longrightarrow> name (table_of vs ! i) = Some (config_names ! i)"
  by (simp add: table_of_nth)

lemma map_name_table_of:
  assumes "length vs = 22"
  shows "map name (table_of vs) = map name ConfigData"
  using static_table_table_of[OF assms] by (simp add: static_table_def)

lemma length_table_of: "length vs = 22 \<Longrightarrow> length (table_of vs) = 23"
  by (simp add: table_of_def config_names_def)

lemma install_root_long: "install_root long_exec_path = CHR ''/'' # replicate 1000 (CHR ''a'')"
proof -
  let ?root = "CHR ''/'' # replicate 1000 (CHR ''a'')"
  have 1: "long_exec_path = (?root @ ''/bin'') @ CHR ''/'' # ''postgres''"
    by (simp add: long_exec_path_def)
  have 2: "strip_last_segment long_exec_path = ?root @ CHR ''/'' # ''bin''"
    unfolding 1 by (subst strip_last_segment_split) simp_all
  show ?thesis
    unfolding install_root_def 2 by (subst strip_last_segment_split) simp_all
qed

lemma host_ok_long: "host_ok sample_build long_exec_path"
  by (simp add: host_ok_def c_path_def path_rules_def literals_def sample_build_def
      install_root_long not_recorded_def NUL_def)
    (simp add: long_exec_path_def)

lemma populated_static:
  "static_table (table_of (config_values P exec))"
  by (rule static_table_table_of[OF length_config_values])

lemma desc_not_text_pair:
  assumes "tupdesc \<noteq> [TEXTOID, TEXTOID]"
  shows "natts tupdesc \<noteq> 2 \<or> tupdesc ! 0 \<noteq> TEXTOID \<or> tupdesc ! 1 \<noteq> TEXTOID"
proof (cases "length tupdesc = 2")
  case False
  then show ?thesis by (simp add: natts_def)
next
  case True
  then obtain a b where "tupdesc = [a, b]"
    by (cases tupdesc; cases "tl tupdesc") auto
  with assms show ?thesis by auto
qed

lemma pg_config_materialize:
  assumes "host_ok P exec" and "static_table T" and "materialize_allowed (Some rsinfo)"
    and "expectedDesc rsinfo = [TEXTOID, TEXTOID]"
  shows "pg_config P exec junk (Some rsinfo) T =
           (table_of (config_values P exec),
            Inr (rsinfo\<lparr>returnMode := SFRM_Materialize,
                        setResult := Some (zip config_names (map Some (config_values P exec))),
                        setDesc := Some [TEXTOID, TEXTOID]\<rparr>))"
  using assms(3,4)
  by (simp add: pg_config_def materialize_allowed_def natts_def populate_result[OF assms(1,2)]
      emit_rows_table_of[OF length_config_values])

lemma pg_config_outcome_independent:
  assumes "host_ok P exec" and "static_table T1" and "static_table T2"
  shows "snd (pg_config P exec junk1 resultinfo T1) = snd (pg_config P exec junk2 resultinfo T2)"
  by (simp add: pg_config_def Let_def populate_result[OF assms(1,2)]
      populate_result[OF assms(1,3)] emit_rows_table_of[OF length_config_values]
      split: option.split)

lemma materialize_allowed_text_pair: "materialize_allowed (Some text_pair_caller)"
  by (simp add: materialize_allowed_def text_pair_caller_def SFRM_Materialize_def
      SFRM_ValuePerCall_def)

lemma failures_differ: "UnsupportedContext \<noteq> SchemaMismatch"
  by (simp add: UnsupportedContext_def SchemaMismatch_def)

section \<open>The properties of the specification\<close>

text \<open>
  Claim C1. Whatever \<^verbatim>\<open>my_exec_path\<close> holds, populating the table and then running the
  loop of \<^const>\<open>pg_config\<close> over it yields exactly 22 rows; their names are the 22 names of
  the initialiser, in its order, each with the setting just stored; the loop stops at
  entry 22, the one whose name is the null pointer.
\<close>

theorem emit_yields_the_22_rows:
  assumes "host_ok P my_exec_path" and "static_table T"
  shows "\<exists>T' rows.
           get_configdata P my_exec_path junk T = Some T' \<and>
           emit_rows T' = Some rows \<and>
           length rows = 22 \<and>
           map fst rows =
             [''BINDIR'', ''DOCDIR'', ''HTMLDIR'', ''INCLUDEDIR'', ''PKGINCLUDEDIR'',
              ''INCLUDEDIR-SERVER'', ''LIBDIR'', ''PKGLIBDIR'', ''LOCALEDIR'', ''MANDIR'',
              ''SHAREDIR'', ''SYSCONFDIR'', ''PGXS'', ''CONFIGURE'', ''CC'', ''CPPFLAGS'',
              ''CFLAGS'', ''CFLAGS_SL'', ''LDFLAGS'', ''LDFLAGS_SL'', ''LIBS'', ''VERSION''] \<and>
           map snd rows = map setting (take 22 T') \<and>
           length T' = 23 \<and>
           name (T' ! 22) = None"
proof -
  let ?vs = "config_values P my_exec_path"
  have l: "length ?vs = 22" by (rule length_config_values)
  have 1: "get_configdata P my_exec_path junk T = Some (table_of ?vs)"
    by (rule populate_result[OF assms])
  have 2: "emit_rows (table_of ?vs) = Some (zip config_names (map Some ?vs))"
    by (rule emit_rows_table_of[OF l])
  have 3: "length (zip config_names (map Some ?vs)) = 22"
    using l by (simp add: config_names_def)
  have 4: "map fst (zip config_names (map Some ?vs)) = config_names"
    using l by (simp add: config_names_def)
  have 5: "map snd (zip config_names (map Some ?vs)) = map setting (take 22 (table_of ?vs))"
    using l by (simp add: table_of_def config_names_def map_snd_zip_take zip_map2 comp_def case_prod_unfold)
  have 6: "name (table_of ?vs ! 22) = None"
    using l by (simp add: table_of_def nth_append config_names_def)
  show ?thesis
    using 1 2 3 4 5 6 length_table_of[OF l] by (simp add: config_names_def)
qed

theorem emit_yields_the_22_rows_witness:
  "host_ok sample_build usr_local_postgres \<and> static_table ConfigData \<and>
   (\<exists>T' rows.
      get_configdata sample_build usr_local_postgres stack_junk ConfigData = Some T' \<and>
      emit_rows T' = Some rows \<and>
      length rows = 22 \<and>
      map fst rows =
        [''BINDIR'', ''DOCDIR'', ''HTMLDIR'', ''INCLUDEDIR'', ''PKGINCLUDEDIR'',
         ''INCLUDEDIR-SERVER'', ''LIBDIR'', ''PKGLIBDIR'', ''LOCALEDIR'', ''MANDIR'',
         ''SHAREDIR'', ''SYSCONFDIR'', ''PGXS'', ''CONFIGURE'', ''CC'', ''CPPFLAGS'',
         ''CFLAGS'', ''CFLAGS_SL'', ''LDFLAGS'', ''LDFLAGS_SL'', ''LIBS'', ''VERSION''] \<and>
      map snd rows = map setting (take 22 T') \<and>
      length T' = 23 \<and>
      name (T' ! 22) = None)"
  using emit_yields_the_22_rows[OF host_ok_usr static_table_ConfigData, of stack_junk]
    host_ok_usr static_table_ConfigData
  by simp

text \<open>
  Claim C2. As stated, for every row shape that is not two text columns, the claim fails:
  the test of the calling context comes first, and a caller that does not allow a tuple
  store gets the report of that test, whatever row shape it expects. Here the caller
  expects an integer and a text column.
\<close>

theorem schema_mismatch_counterexample:
  "expectedDesc value_per_call_int_caller \<noteq> [TEXTOID, TEXTOID] \<and>
   pg_config sample_build usr_local_postgres stack_junk (Some value_per_call_int_caller) ConfigData
     = (ConfigData, Inl UnsupportedContext) \<and>
   UnsupportedContext \<noteq> SchemaMismatch"
  by (simp add: pg_config_def value_per_call_int_caller_def int_text_caller_def
      text_pair_caller_def SFRM_ValuePerCall_def SFRM_Materialize_def INT4OID_def TEXTOID_def
      failures_differ)

text \<open>
  Claim C2, amended. When the caller allows a tuple store, so that the first test of
  \<^const>\<open>pg_config\<close> is passed, and the row shape it expects is anything but two columns of
  type text, the call ends with the report of the second test. The table is as it was before
  the call: \<^const>\<open>get_configdata\<close> has not run, and no row has been built.
\<close>

theorem schema_mismatch_before_any_row:
  assumes "materialize_allowed (Some rsinfo)"
    and "expectedDesc rsinfo \<noteq> [TEXTOID, TEXTOID]"
  shows "pg_config P my_exec_path junk (Some rsinfo) T = (T, Inl SchemaMismatch)"
  using assms(1) desc_not_text_pair[OF assms(2)]
  by (auto simp: pg_config_def materialize_allowed_def Let_def)

theorem schema_mismatch_before_any_row_witness:
  "materialize_allowed (Some int_text_caller) \<and>
   expectedDesc int_text_caller \<noteq> [TEXTOID, TEXTOID] \<and>
   pg_config sample_build usr_local_postgres stack_junk (Some int_text_caller) ConfigData =
     (ConfigData, Inl SchemaMismatch)"
proof -
  have h1: "materialize_allowed (Some int_text_caller)"
    using materialize_allowed_text_pair
    by (simp add: materialize_allowed_def int_text_caller_def)
  have h2: "expectedDesc int_text_caller \<noteq> [TEXTOID, TEXTOID]"
    by (simp add: int_text_caller_def INT4OID_def TEXTOID_def)
  show ?thesis
    using schema_mismatch_before_any_row[OF h1 h2] h1 h2 by simp
qed

text \<open>
  Claim C3. As stated, for every executable path, the relation fails, in two ways.
  \<^verbatim>\<open>conf_strlcat\<close> is given \<^verbatim>\<open>sizeof(path)\<close> and cuts the result to \<open>MAXPGPATH - 1\<close>
  characters: with the executable of \<^const>\<open>long_exec_path\<close> the library directory has 1005
  characters, and the value of \<open>PGXS\<close> has 1023 characters, not 1032. And on Windows
  \<^const>\<open>cleanup_path\<close> looks for the short form of each of the two paths on its own: in
  the installation of \<^const>\<open>win32_build\<close> the library directory has one,
  \<open>C:/PROGRA~1/pg/lib\<close>, and the makefile, which does not exist, has none, so that the
  value of \<open>PGXS\<close> still begins with \<open>C:/Program Files\<close>.
\<close>

theorem pgxs_suffix_counterexample:
  "map_option pgxs_is_pkglib_with_suffix
     (get_configdata sample_build long_exec_path stack_junk ConfigData) = Some False \<and>
   map_option pgxs_is_pkglib_with_suffix
     (get_configdata win32_build program_files_postgres stack_junk ConfigData) = Some False"
proof
  let ?vs = "config_values sample_build long_exec_path"
  let ?lib = "CHR ''/'' # replicate 1000 (CHR ''a'') @ ''/lib''"
  let ?sfx = "''/pgxs/src/makefiles/pgxs.mk''"
  have T: "get_configdata sample_build long_exec_path stack_junk ConfigData = Some (table_of ?vs)"
    by (rule populate_result[OF host_ok_long static_table_ConfigData])
  have lib: "get_pkglib_path sample_build long_exec_path = ?lib"
    by (simp add: sample_build_def install_root_long)
  have nowin: "\<not> win32 sample_build" and m: "MAXPGPATH sample_build - 1 = 1023"
    by (simp_all add: sample_build_def)
  have c: "clean sample_build s = s" for s
    using nowin by (simp add: clean_def)
  have 7: "setting (table_of ?vs ! 7) = Some ?lib"
    by (simp only: setting_table_of[OF length_config_values] config_values_nth c lib)
  have 12: "setting (table_of ?vs ! 12) = Some (take 1023 (?lib @ ?sfx))"
    by (simp only: setting_table_of[OF length_config_values] config_values_nth c lib m)
  have "length (take 1023 (?lib @ ?sfx)) \<noteq> length (?lib @ ?sfx)"
    by simp
  then have ne: "take 1023 (?lib @ ?sfx) \<noteq> ?lib @ ?sfx"
    by metis
  have "\<not> pgxs_is_pkglib_with_suffix (table_of ?vs)"
    unfolding pgxs_is_pkglib_with_suffix_def 7 12 using ne
    by (simp only: option.map option.inject not_False_eq_True)
  then show "map_option pgxs_is_pkglib_with_suffix
     (get_configdata sample_build long_exec_path stack_junk ConfigData) = Some False"
    unfolding T by simp
next
  let ?ws = "config_values win32_build program_files_postgres"
  have T: "get_configdata win32_build program_files_postgres stack_junk ConfigData
             = Some (table_of ?ws)"
    by (rule populate_result[OF host_ok_program_files static_table_ConfigData])
  have lib: "get_pkglib_path win32_build program_files_postgres = ''C:/Program Files/pg/lib''"
    by (simp add: win32_build_def sample_build_def install_root_program_files)
  have m: "MAXPGPATH win32_build - 1 = 1023"
    by (simp add: win32_build_def sample_build_def)
  have c7: "clean win32_build ''C:/Program Files/pg/lib'' = ''C:/PROGRA~1/pg/lib''"
    by (simp add: clean_def win32_build_def sample_build_def program_files_dirs_def
        backslash_to_slash_def NUL_def)
  have c12: "clean win32_build
               (take 1023 (''C:/Program Files/pg/lib'' @ ''/pgxs/src/makefiles/pgxs.mk''))
             = ''C:/Program Files/pg/lib/pgxs/src/makefiles/pgxs.mk''"
    by (simp add: clean_def win32_build_def sample_build_def program_files_dirs_def
        backslash_to_slash_def NUL_def)
  have 7: "setting (table_of ?ws ! 7) = Some ''C:/PROGRA~1/pg/lib''"
    by (simp only: setting_table_of[OF length_config_values] config_values_nth lib c7)
  have 12: "setting (table_of ?ws ! 12)
              = Some ''C:/Program Files/pg/lib/pgxs/src/makefiles/pgxs.mk''"
    by (simp only: setting_table_of[OF length_config_values] config_values_nth lib m c12)
  have "\<not> pgxs_is_pkglib_with_suffix (table_of ?ws)"
    unfolding pgxs_is_pkglib_with_suffix_def 7 12 by simp
  then show "map_option pgxs_is_pkglib_with_suffix
     (get_configdata win32_build program_files_postgres stack_junk ConfigData) = Some False"
    unfolding T by simp
qed

text \<open>
  Claim C3, amended. In every run the value of \<open>PKGLIBDIR\<close> is what
  \<^const>\<open>cleanup_path\<close> makes of the library directory, and the value of \<open>PGXS\<close> is what
  it makes of the first \<open>MAXPGPATH - 1\<close> characters of that directory followed by the
  suffix; the relation of the specification holds exactly when these two agree. Whenever
  \<^const>\<open>cleanup_path\<close> puts no short form in the place of either path (on every build
  that is not for Windows, and on Windows when the call fails, its result does not fit or
  is the path itself; backslashes may be replaced), the value of \<open>PGXS\<close> is the first
  \<open>MAXPGPATH - 1\<close> characters of the value of \<open>PKGLIBDIR\<close> followed by the suffix, and it
  is the whole of it exactly when the 27 characters of the suffix fit the array after the
  directory.
\<close>

theorem pgxs_is_pkglib_with_suffix_cut_to_the_buffer:
  assumes "host_ok P my_exec_path" and "static_table T"
  shows "\<exists>T'.
           get_configdata P my_exec_path junk T = Some T' \<and>
           setting (T' ! 7) = Some (clean P (get_pkglib_path P my_exec_path)) \<and>
           setting (T' ! 12) =
             Some (clean P (take (MAXPGPATH P - 1)
                              (get_pkglib_path P my_exec_path @ ''/pgxs/src/makefiles/pgxs.mk''))) \<and>
           (pgxs_is_pkglib_with_suffix T' \<longleftrightarrow>
              clean P (take (MAXPGPATH P - 1)
                         (get_pkglib_path P my_exec_path @ ''/pgxs/src/makefiles/pgxs.mk'')) =
              clean P (get_pkglib_path P my_exec_path) @ ''/pgxs/src/makefiles/pgxs.mk'') \<and>
           (keeps_long_form P (get_pkglib_path P my_exec_path) \<and>
            keeps_long_form P
              (take (MAXPGPATH P - 1)
                 (get_pkglib_path P my_exec_path @ ''/pgxs/src/makefiles/pgxs.mk'')) \<longrightarrow>
              (\<exists>v. setting (T' ! 7) = Some v \<and>
                   setting (T' ! 12) =
                     Some (take (MAXPGPATH P - 1) (v @ ''/pgxs/src/makefiles/pgxs.mk'')) \<and>
                   (pgxs_is_pkglib_with_suffix T' \<longleftrightarrow> length v + 27 < MAXPGPATH P)))"
proof -
  let ?vs = "config_values P my_exec_path"
  let ?pl = "get_pkglib_path P my_exec_path"
  let ?sfx = "''/pgxs/src/makefiles/pgxs.mk''"
  let ?n = "MAXPGPATH P - 1"
  have T: "get_configdata P my_exec_path junk T = Some (table_of ?vs)"
    by (rule populate_result[OF assms(1,2)])
  have 7: "setting (table_of ?vs ! 7) = Some (clean P ?pl)"
    by (simp only: setting_table_of[OF length_config_values] config_values_nth)
  have 12: "setting (table_of ?vs ! 12) = Some (clean P (take ?n (?pl @ ?sfx)))"
    by (simp only: setting_table_of[OF length_config_values] config_values_nth)
  have rel: "pgxs_is_pkglib_with_suffix (table_of ?vs) \<longleftrightarrow>
               clean P (take ?n (?pl @ ?sfx)) = clean P ?pl @ ?sfx"
    unfolding pgxs_is_pkglib_with_suffix_def 7 12
    by (simp only: option.map option.inject)
  have fit: "length ?pl < MAXPGPATH P"
    using assms(1) by (simp add: host_ok_def path_rules_def c_path_def)
  have long: "\<exists>v. setting (table_of ?vs ! 7) = Some v \<and>
                  setting (table_of ?vs ! 12) = Some (take ?n (v @ ?sfx)) \<and>
                  (pgxs_is_pkglib_with_suffix (table_of ?vs) \<longleftrightarrow> length v + 27 < MAXPGPATH P)"
    if k: "keeps_long_form P ?pl \<and> keeps_long_form P (take ?n (?pl @ ?sfx))"
  proof -
    let ?v = "clean P ?pl"
    have cut: "clean P (take ?n (?pl @ ?sfx)) = take ?n (?v @ ?sfx)"
      using k by (intro clean_cut_with_suffix) simp_all
    have len: "length ?v = length ?pl"
      using k by (intro length_clean_long_form) simp
    have "take ?n (?v @ ?sfx) = ?v @ ?sfx \<longleftrightarrow> length (?v @ ?sfx) \<le> ?n"
      by (rule take_all_iff)
    also have "\<dots> \<longleftrightarrow> length ?v + 27 < MAXPGPATH P"
      using fit len by auto
    finally have "pgxs_is_pkglib_with_suffix (table_of ?vs) \<longleftrightarrow> length ?v + 27 < MAXPGPATH P"
      unfolding rel cut .
    with 7 12 cut show ?thesis by simp
  qed
  show ?thesis
    using T 7 12 rel long by blast
qed

text \<open>The witness: the sample build for POSIX, and the build for Windows with an executable
  on a drive where no path has a short form and the path has a backslash.\<close>

theorem pgxs_is_pkglib_with_suffix_cut_to_the_buffer_witness:
  "host_ok sample_build usr_local_postgres \<and> static_table ConfigData \<and>
   keeps_long_form sample_build (get_pkglib_path sample_build usr_local_postgres) \<and>
   keeps_long_form sample_build
     (take (MAXPGPATH sample_build - 1)
        (get_pkglib_path sample_build usr_local_postgres @ ''/pgxs/src/makefiles/pgxs.mk'')) \<and>
   (\<exists>T'. get_configdata sample_build usr_local_postgres stack_junk ConfigData = Some T' \<and>
      setting (T' ! 7) = Some ''/usr/local/pgsql/lib'' \<and>
      setting (T' ! 12) = Some ''/usr/local/pgsql/lib/pgxs/src/makefiles/pgxs.mk'' \<and>
      pgxs_is_pkglib_with_suffix T') \<and>
   host_ok win32_build d_drive_postgres \<and>
   keeps_long_form win32_build (get_pkglib_path win32_build d_drive_postgres) \<and>
   keeps_long_form win32_build
     (take (MAXPGPATH win32_build - 1)
        (get_pkglib_path win32_build d_drive_postgres @ ''/pgxs/src/makefiles/pgxs.mk'')) \<and>
   (\<exists>T'. get_configdata win32_build d_drive_postgres stack_junk ConfigData = Some T' \<and>
      setting (T' ! 7) = Some ''D:/pg/lib'' \<and>
      setting (T' ! 12) = Some ''D:/pg/lib/pgxs/src/makefiles/pgxs.mk'' \<and>
      pgxs_is_pkglib_with_suffix T')"
proof -
  have k: "keeps_long_form sample_build s" for s
    by (simp add: keeps_long_form_def sample_build_def)
  have lib: "get_pkglib_path sample_build usr_local_postgres = ''/usr/local/pgsql/lib''"
    by (simp add: sample_build_def install_root_usr)
  have c: "clean sample_build s = s" for s
    by (simp add: clean_def sample_build_def)
  have m: "MAXPGPATH sample_build - 1 = 1023" by (simp add: sample_build_def)
  have posix: "\<exists>T'. get_configdata sample_build usr_local_postgres stack_junk ConfigData = Some T' \<and>
      setting (T' ! 7) = Some ''/usr/local/pgsql/lib'' \<and>
      setting (T' ! 12) = Some ''/usr/local/pgsql/lib/pgxs/src/makefiles/pgxs.mk'' \<and>
      pgxs_is_pkglib_with_suffix T'"
    using pgxs_is_pkglib_with_suffix_cut_to_the_buffer
            [OF host_ok_usr static_table_ConfigData, of stack_junk]
    unfolding lib c m by auto
  have wlib: "get_pkglib_path win32_build d_drive_postgres = ''D:'' @ CHR 0x5C # ''pg/lib''"
    by (simp add: win32_build_def sample_build_def install_root_d_drive)
  have wm: "MAXPGPATH win32_build - 1 = 1023" by (simp add: win32_build_def sample_build_def)
  have wk1: "keeps_long_form win32_build (''D:'' @ CHR 0x5C # ''pg/lib'')"
    by (simp add: keeps_long_form_def short_form_def win32_build_def sample_build_def
        program_files_dirs_def)
  have wk2: "keeps_long_form win32_build
               (take 1023 ((''D:'' @ CHR 0x5C # ''pg/lib'') @ ''/pgxs/src/makefiles/pgxs.mk''))"
    by (simp add: keeps_long_form_def short_form_def win32_build_def sample_build_def
        program_files_dirs_def)
  have wc1: "clean win32_build (''D:'' @ CHR 0x5C # ''pg/lib'') = ''D:/pg/lib''"
    by (simp add: clean_def win32_build_def sample_build_def program_files_dirs_def
        backslash_to_slash_def)
  have wc2: "clean win32_build
               (take 1023 ((''D:'' @ CHR 0x5C # ''pg/lib'') @ ''/pgxs/src/makefiles/pgxs.mk''))
             = ''D:/pg/lib/pgxs/src/makefiles/pgxs.mk''"
    by (simp add: clean_def win32_build_def sample_build_def program_files_dirs_def
        backslash_to_slash_def)
  have windows: "\<exists>T'. get_configdata win32_build d_drive_postgres stack_junk ConfigData = Some T' \<and>
      setting (T' ! 7) = Some ''D:/pg/lib'' \<and>
      setting (T' ! 12) = Some ''D:/pg/lib/pgxs/src/makefiles/pgxs.mk'' \<and>
      pgxs_is_pkglib_with_suffix T'"
    using pgxs_is_pkglib_with_suffix_cut_to_the_buffer
            [OF host_ok_d_drive static_table_ConfigData, of stack_junk]
    unfolding wlib wm wc1 wc2 by auto
  show ?thesis
    using host_ok_usr static_table_ConfigData k posix host_ok_d_drive wk1 wk2 windows
    unfolding lib m wlib wm
    by (intro conjI)
qed

text \<open>
  Claim C4. As stated, the claim fails: \<^verbatim>\<open>ConfigData\<close> is one static array, and a call
  stores its values into it. What the call leaves there is what the next call finds: after
  a call that succeeds the array is no longer the one of the initialiser.
\<close>

theorem static_table_shared_counterexample:
  "fst (pg_config sample_build usr_local_postgres stack_junk (Some text_pair_caller) ConfigData)
     \<noteq> ConfigData"
proof -
  let ?vs = "config_values sample_build usr_local_postgres"
  have tp: "expectedDesc text_pair_caller = [TEXTOID, TEXTOID]"
    by (simp add: text_pair_caller_def)
  have "fst (pg_config sample_build usr_local_postgres stack_junk (Some text_pair_caller) ConfigData)
          = table_of ?vs"
    by (simp only: pg_config_materialize[OF host_ok_usr static_table_ConfigData
          materialize_allowed_text_pair tp] fst_conv)
  moreover have "setting (table_of ?vs ! 0) \<noteq> setting (ConfigData ! 0)"
    by (simp add: setting_table_of length_config_values ConfigData_def)
  ultimately show ?thesis by metis
qed

text \<open>
  Claim C4, amended. The table is shared by all calls, and each call that reaches
  \<^const>\<open>get_configdata\<close> overwrites all of its 22 settings: the table it leaves, and what
  \<^const>\<open>pg_config\<close> returns (the rows or the error), are the same whatever the earlier
  calls left in the table and whatever the stack held. The names and the last entry are
  never written, so the table stays one that \<^const>\<open>static_table\<close> describes.
  \<^verbatim>\<open>my_exec_path\<close> is an argument that no function returns: it is only read.
\<close>

theorem each_call_overwrites_the_shared_table:
  assumes "host_ok P my_exec_path" and "static_table T1" and "static_table T2"
  shows "\<exists>T'. get_configdata P my_exec_path junk1 T1 = Some T' \<and>
              get_configdata P my_exec_path junk2 T2 = Some T' \<and>
              static_table T' \<and>
              list_all (\<lambda>e. setting e \<noteq> None) (take 22 T') \<and>
              snd (pg_config P my_exec_path junk1 resultinfo T1) =
              snd (pg_config P my_exec_path junk2 resultinfo T2) \<and>
              static_table (fst (pg_config P my_exec_path junk1 resultinfo T1))"
proof -
  let ?vs = "config_values P my_exec_path"
  let ?T = "table_of ?vs"
  have 1: "get_configdata P my_exec_path junk1 T1 = Some ?T"
    by (rule populate_result[OF assms(1,2)])
  have 2: "get_configdata P my_exec_path junk2 T2 = Some ?T"
    by (rule populate_result[OF assms(1,3)])
  have 3: "static_table ?T" by (rule populated_static)
  have 4: "list_all (\<lambda>e. setting e \<noteq> None) (take 22 ?T)"
    by (simp add: table_of_def config_names_def config_values_def)
  have 5: "snd (pg_config P my_exec_path junk1 resultinfo T1) =
           snd (pg_config P my_exec_path junk2 resultinfo T2)"
    by (rule pg_config_outcome_independent[OF assms])
  have 6: "static_table (fst (pg_config P my_exec_path junk1 resultinfo T1))"
    using assms(2) 3
    by (simp add: pg_config_def Let_def 1 emit_rows_table_of[OF length_config_values]
        split: option.split)
  show ?thesis using 1 2 3 4 5 6 by blast
qed

theorem each_call_overwrites_the_shared_table_witness:
  "host_ok sample_build usr_local_postgres \<and> static_table ConfigData \<and>
   static_table (fst (pg_config sample_build usr_local_postgres stack_junk
                        (Some text_pair_caller) ConfigData)) \<and>
   (\<exists>T'. get_configdata sample_build usr_local_postgres stack_junk ConfigData = Some T' \<and>
      get_configdata sample_build usr_local_postgres other_junk
        (fst (pg_config sample_build usr_local_postgres stack_junk
                (Some text_pair_caller) ConfigData)) = Some T' \<and>
      static_table T' \<and>
      list_all (\<lambda>e. setting e \<noteq> None) (take 22 T') \<and>
      snd (pg_config sample_build usr_local_postgres stack_junk (Some text_pair_caller) ConfigData) =
      snd (pg_config sample_build usr_local_postgres other_junk (Some text_pair_caller)
             (fst (pg_config sample_build usr_local_postgres stack_junk
                     (Some text_pair_caller) ConfigData))))"
proof -
  let ?T1 = "fst (pg_config sample_build usr_local_postgres stack_junk
                    (Some text_pair_caller) ConfigData)"
  have tp: "expectedDesc text_pair_caller = [TEXTOID, TEXTOID]"
    by (simp add: text_pair_caller_def)
  have "?T1 = table_of (config_values sample_build usr_local_postgres)"
    by (simp only: pg_config_materialize[OF host_ok_usr static_table_ConfigData
          materialize_allowed_text_pair tp] fst_conv)
  then have s1: "static_table ?T1" by (simp only: populated_static)
  show ?thesis
    using each_call_overwrites_the_shared_table
            [OF host_ok_usr static_table_ConfigData s1,
              of stack_junk other_junk "Some text_pair_caller"]
      host_ok_usr static_table_ConfigData s1
    by blast
qed

text \<open>
  Claim C5. After \<^const>\<open>get_configdata\<close> the entry \<open>VERSION\<close> holds the literal
  \<^verbatim>\<open>"PostgreSQL " PG_VERSION\<close>: the product name, a blank and the version of the build.
  It is not the string \<open>not recorded\<close>, whatever the version and the optional macros are.
\<close>

theorem version_is_product_name_and_version:
  assumes "host_ok P my_exec_path" and "static_table T"
  shows "\<exists>T'. get_configdata P my_exec_path junk T = Some T' \<and>
              name (T' ! 21) = Some ''VERSION'' \<and>
              setting (T' ! 21) = Some (''PostgreSQL '' @ PG_VERSION P) \<and>
              setting (T' ! 21) \<noteq> Some ''not recorded''"
proof -
  let ?vs = "config_values P my_exec_path"
  have T: "get_configdata P my_exec_path junk T = Some (table_of ?vs)"
    by (rule populate_result[OF assms])
  have n: "name (table_of ?vs ! 21) = Some ''VERSION''"
    by (simp add: name_table_of length_config_values config_names_def)
  have s: "setting (table_of ?vs ! 21) = Some (''PostgreSQL '' @ PG_VERSION P)"
    by (simp add: setting_table_of length_config_values config_values_nth)
  have "''PostgreSQL '' @ PG_VERSION P \<noteq> ''not recorded''" by simp
  with T n s show ?thesis by simp
qed

theorem version_is_product_name_and_version_witness:
  "host_ok sample_build usr_local_postgres \<and> static_table ConfigData \<and>
   (\<exists>T'. get_configdata sample_build usr_local_postgres stack_junk ConfigData = Some T' \<and>
      name (T' ! 21) = Some ''VERSION'' \<and>
      setting (T' ! 21) = Some ''PostgreSQL 9.0.1'' \<and>
      setting (T' ! 21) \<noteq> Some ''not recorded'')"
proof -
  have v: "PG_VERSION sample_build = ''9.0.1''" by (simp add: sample_build_def)
  show ?thesis
    using version_is_product_name_and_version[OF host_ok_usr static_table_ConfigData, of stack_junk]
      host_ok_usr static_table_ConfigData
    unfolding v by simp
qed

text \<open>
  Claim C6. After \<^const>\<open>get_configdata\<close> the entries 13 to 20 are \<open>CONFIGURE\<close>, \<open>CC\<close>,
  \<open>CPPFLAGS\<close>, \<open>CFLAGS\<close>, \<open>CFLAGS_SL\<close>, \<open>LDFLAGS\<close>, \<open>LDFLAGS_SL\<close> and \<open>LIBS\<close>, and each
  holds the string of its macro when the build defines the macro, and the string
  \<open>not recorded\<close> when it does not.
\<close>

theorem optional_entries_hold_the_macro_or_not_recorded:
  assumes "host_ok P my_exec_path" and "static_table T"
  shows "\<exists>T'. get_configdata P my_exec_path junk T = Some T' \<and>
              map name (take 8 (drop 13 T')) =
                map Some [''CONFIGURE'', ''CC'', ''CPPFLAGS'', ''CFLAGS'', ''CFLAGS_SL'',
                          ''LDFLAGS'', ''LDFLAGS_SL'', ''LIBS''] \<and>
              map setting (take 8 (drop 13 T')) =
                map (\<lambda>macro. Some (case macro of Some s \<Rightarrow> s | None \<Rightarrow> ''not recorded''))
                  [VAL_CONFIGURE P, VAL_CC P, VAL_CPPFLAGS P, VAL_CFLAGS P, VAL_CFLAGS_SL P,
                   VAL_LDFLAGS P, VAL_LDFLAGS_SL P, VAL_LIBS P]"
proof -
  let ?vs = "config_values P my_exec_path"
  have T: "get_configdata P my_exec_path junk T = Some (table_of ?vs)"
    by (rule populate_result[OF assms])
  have n: "map name (take 8 (drop 13 (table_of ?vs))) =
             map Some [''CONFIGURE'', ''CC'', ''CPPFLAGS'', ''CFLAGS'', ''CFLAGS_SL'',
                       ''LDFLAGS'', ''LDFLAGS_SL'', ''LIBS'']"
    by (simp add: table_of_def config_names_def config_values_def)
  have s: "map setting (take 8 (drop 13 (table_of ?vs))) =
             map (\<lambda>macro. Some (case macro of Some s \<Rightarrow> s | None \<Rightarrow> ''not recorded''))
               [VAL_CONFIGURE P, VAL_CC P, VAL_CPPFLAGS P, VAL_CFLAGS P, VAL_CFLAGS_SL P,
                VAL_LDFLAGS P, VAL_LDFLAGS_SL P, VAL_LIBS P]"
    by (simp add: table_of_def config_names_def config_values_def not_recorded_def)
  from T n s show ?thesis by blast
qed

theorem optional_entries_hold_the_macro_or_not_recorded_witness:
  "host_ok sample_build usr_local_postgres \<and> static_table ConfigData \<and>
   (\<exists>T'. get_configdata sample_build usr_local_postgres stack_junk ConfigData = Some T' \<and>
      map name (take 8 (drop 13 T')) =
        map Some [''CONFIGURE'', ''CC'', ''CPPFLAGS'', ''CFLAGS'', ''CFLAGS_SL'',
                  ''LDFLAGS'', ''LDFLAGS_SL'', ''LIBS''] \<and>
      map setting (take 8 (drop 13 T')) =
        [Some ''--prefix=/usr/local/pgsql'', Some ''gcc'', Some ''not recorded'',
         Some ''-O2 -Wall'', Some ''-fpic'', Some ''not recorded'', Some ''not recorded'',
         Some ''-lz -lm''])"
  using optional_entries_hold_the_macro_or_not_recorded
          [OF host_ok_usr static_table_ConfigData, of stack_junk]
    host_ok_usr static_table_ConfigData
  by (simp add: sample_build_def)

text \<open>
  Claim C7. As stated, for every build, the claim fails: on Windows
  \<^const>\<open>cleanup_path\<close> puts the short form in the place of the directory. In the
  installation of \<^const>\<open>win32_build\<close> the executable is
  \<open>C:/Program Files/pg/bin/postgres.exe\<close> and the value of \<open>BINDIR\<close> is
  \<open>C:/PROGRA~1/pg/bin\<close>, not \<open>C:/Program Files/pg/bin\<close>.
\<close>

theorem bindir_short_form_counterexample:
  "strip_last_segment program_files_postgres = ''C:/Program Files/pg/bin'' \<and>
   map_option bindir_value
     (get_configdata win32_build program_files_postgres stack_junk ConfigData)
     = Some (Some ''C:/PROGRA~1/pg/bin'') \<and>
   map_option (bindir_is_stripped_exec_path program_files_postgres)
     (get_configdata win32_build program_files_postgres stack_junk ConfigData) = Some False"
proof -
  let ?ws = "config_values win32_build program_files_postgres"
  have T: "get_configdata win32_build program_files_postgres stack_junk ConfigData
             = Some (table_of ?ws)"
    by (rule populate_result[OF host_ok_program_files static_table_ConfigData])
  have s: "strip_last_segment program_files_postgres = ''C:/Program Files/pg/bin''"
    by (simp add: program_files_postgres_def strip_last_segment_def)
  have c: "clean win32_build ''C:/Program Files/pg/bin'' = ''C:/PROGRA~1/pg/bin''"
    by (simp add: clean_def win32_build_def sample_build_def program_files_dirs_def
        backslash_to_slash_def NUL_def)
  have 0: "setting (table_of ?ws ! 0) = Some ''C:/PROGRA~1/pg/bin''"
    by (simp only: setting_table_of[OF length_config_values] config_values_nth s c)
  show ?thesis
    unfolding T by (simp add: bindir_is_stripped_exec_path_def bindir_value_def 0 s)
qed

text \<open>
  Claim C7, amended. When \<^verbatim>\<open>my_exec_path\<close> is a directory \<open>d\<close>, a \<open>/\<close> and a last segment
  \<open>f\<close> without \<open>/\<close>, the entry \<open>BINDIR\<close> holds, after \<^const>\<open>get_configdata\<close>, what
  \<^const>\<open>cleanup_path\<close> makes of \<open>d\<close>: on a build that is not for Windows \<open>d\<close> itself, and
  on Windows the short form of \<open>d\<close> where the call gives one, with every backslash
  replaced. It is \<open>d\<close> itself, the path with exactly its last segment and separator taken
  off, exactly when \<^const>\<open>cleanup_path\<close> has nothing to change in \<open>d\<close>. The instance below
  is the one of the specification, on the build for POSIX: from
  \<open>/usr/local/pgsql/bin/postgres\<close> to \<open>/usr/local/pgsql/bin\<close>.
\<close>

theorem bindir_is_exec_path_without_last_segment:
  assumes "host_ok P (d @ CHR ''/'' # f)" and "static_table T"
    and "CHR ''/'' \<notin> set f"
  shows "\<exists>T'. get_configdata P (d @ CHR ''/'' # f) junk T = Some T' \<and>
              name (T' ! 0) = Some ''BINDIR'' \<and>
              setting (T' ! 0) =
                Some (if win32 P then map backslash_to_slash (short_form P d) else d) \<and>
              (setting (T' ! 0) = Some d \<longleftrightarrow> cleanup_keeps P d)"
proof -
  let ?vs = "config_values P (d @ CHR ''/'' # f)"
  have T: "get_configdata P (d @ CHR ''/'' # f) junk T = Some (table_of ?vs)"
    by (rule populate_result[OF assms(1,2)])
  have n: "name (table_of ?vs ! 0) = Some ''BINDIR''"
    by (simp add: name_table_of length_config_values config_names_def)
  have s: "setting (table_of ?vs ! 0) = Some (clean P d)"
    by (simp only: setting_table_of[OF length_config_values] config_values_nth
        strip_last_segment_split[OF assms(3)])
  have v: "setting (table_of ?vs ! 0) =
             Some (if win32 P then map backslash_to_slash (short_form P d) else d)"
    unfolding s by (simp only: clean_short_form)
  have k: "setting (table_of ?vs ! 0) = Some d \<longleftrightarrow> cleanup_keeps P d"
    unfolding s by (simp only: option.inject clean_keeps)
  from T n v k show ?thesis by blast
qed

theorem bindir_is_exec_path_without_last_segment_witness:
  "host_ok sample_build ''/usr/local/pgsql/bin/postgres'' \<and> static_table ConfigData \<and>
   CHR ''/'' \<notin> set ''postgres'' \<and> cleanup_keeps sample_build ''/usr/local/pgsql/bin'' \<and>
   (\<exists>T'. get_configdata sample_build ''/usr/local/pgsql/bin/postgres'' stack_junk ConfigData
            = Some T' \<and>
      name (T' ! 0) = Some ''BINDIR'' \<and>
      setting (T' ! 0) = Some ''/usr/local/pgsql/bin'')"
proof -
  have h1: "host_ok sample_build (''/usr/local/pgsql/bin'' @ CHR ''/'' # ''postgres'')"
    using host_ok_usr by (simp add: usr_local_postgres_def)
  have h3: "CHR ''/'' \<notin> set ''postgres''" by simp
  have h4: "cleanup_keeps sample_build ''/usr/local/pgsql/bin''"
    by (simp add: cleanup_keeps_def sample_build_def)
  have w: "\<not> win32 sample_build" by (simp add: sample_build_def)
  show ?thesis
    using bindir_is_exec_path_without_last_segment
            [OF h1 static_table_ConfigData h3, of stack_junk]
      h1 h3 h4 static_table_ConfigData w
    by simp
qed

text \<open>
  Claim C8. When the caller cannot take a tuple store (there is no \<^verbatim>\<open>ReturnSetInfo\<close>, or
  its allowed modes lack \<^verbatim>\<open>SFRM_Materialize\<close>), \<^const>\<open>pg_config\<close> ends with the report of
  its first test. The table is as it was before the call, and nothing is returned but the
  error: the table has not been populated and no row has been built.
\<close>

theorem unsupported_context_before_any_work:
  assumes "\<not> materialize_allowed resultinfo"
  shows "pg_config P my_exec_path junk resultinfo T = (T, Inl UnsupportedContext)"
  using assms
  by (simp add: pg_config_def materialize_allowed_def split: option.splits)

theorem unsupported_context_before_any_work_witness:
  "\<not> materialize_allowed (Some value_per_call_caller) \<and>
   pg_config sample_build usr_local_postgres stack_junk (Some value_per_call_caller) ConfigData =
     (ConfigData, Inl UnsupportedContext)"
proof -
  have h: "\<not> materialize_allowed (Some value_per_call_caller)"
    by (simp add: materialize_allowed_def value_per_call_caller_def SFRM_ValuePerCall_def
        SFRM_Materialize_def)
  show ?thesis
    using unsupported_context_before_any_work[OF h] h by simp
qed

text \<open>
  Claim C9. Calling \<^const>\<open>get_configdata\<close> again on the table that a first call has left,
  with the same \<^verbatim>\<open>my_exec_path\<close> and the same build, leaves the table as it is: both
  calls return, and every name and every setting is the same after the second call as
  after the first, whatever the stack holds at either call.
\<close>

theorem populate_twice_is_populate_once:
  assumes "host_ok P my_exec_path" and "static_table T"
  shows "\<exists>T'. get_configdata P my_exec_path junk T = Some T' \<and>
              get_configdata P my_exec_path junk' T' = Some T'"
proof -
  let ?T = "table_of (config_values P my_exec_path)"
  have 1: "get_configdata P my_exec_path junk T = Some ?T"
    by (rule populate_result[OF assms])
  have 2: "get_configdata P my_exec_path junk' ?T = Some ?T"
    by (rule populate_result[OF assms(1) populated_static])
  from 1 2 show ?thesis by blast
qed

theorem populate_twice_is_populate_once_witness:
  "host_ok sample_build usr_local_postgres \<and> static_table ConfigData \<and>
   (\<exists>T'. get_configdata sample_build usr_local_postgres stack_junk ConfigData = Some T' \<and>
      get_configdata sample_build usr_local_postgres other_junk T' = Some T')"
  using populate_twice_is_populate_once
          [OF host_ok_usr static_table_ConfigData, of stack_junk other_junk]
    host_ok_usr static_table_ConfigData
  by simp

text \<open>
  Claim C10. \<^const>\<open>conf_strlcat\<close> on a buffer of at least \<open>siz\<close> bytes and a terminated
  source: it returns \<open>dlen + strlen(src)\<close>, where \<open>dlen\<close> is the length of the string in
  \<open>dst\<close> as far as the first \<open>siz\<close> bytes show it; it changes no byte from offset \<open>siz\<close>
  on; when \<open>dlen < siz\<close> the buffer then holds the first \<open>siz - 1\<close> characters of the
  concatenation, terminated inside the first \<open>siz\<close> bytes; when no terminator is found in
  the first \<open>siz\<close> bytes it changes nothing.
\<close>

theorem conf_strlcat_bounded:
  assumes "siz \<le> length dst" and "NUL \<notin> set s"
  shows "\<exists>dst'. conf_strlcat dst (s @ NUL # r) siz = Some (dst', strnlen dst siz + length s)
            \<and> length dst' = length dst
            \<and> drop siz dst' = drop siz dst
            \<and> (strnlen dst siz < siz \<longrightarrow>
                 NUL \<in> set (take siz dst') \<and>
                 (\<exists>g. dst' = take (siz - 1) (takeWhile (\<lambda>c. c \<noteq> NUL) dst @ s) @ NUL # g))
            \<and> (siz \<le> strnlen dst siz \<longrightarrow> dst' = dst)"
proof (cases "strnlen dst siz < siz")
  case False
  with strnlen_le[of dst siz] have full: "strnlen dst siz = siz" by simp
  show ?thesis using conf_strlcat_full[OF assms full] full by simp
next
  case True
  let ?dlen = "strnlen dst siz"
  let ?m = "min (siz - 1 - ?dlen) (length s)"
  let ?dst' = "take ?dlen dst @ take (siz - 1 - ?dlen) s @ NUL # drop (Suc (?dlen + ?m)) dst"
  have eq: "conf_strlcat dst (s @ NUL # r) siz = Some (?dst', ?dlen + length s)"
    by (rule conf_strlcat_room[OF assms True])
  have tw: "takeWhile (\<lambda>c. c \<noteq> NUL) (take siz dst) = take ?dlen dst"
  proof -
    have "takeWhile (\<lambda>c. c \<noteq> NUL) (take siz dst) = take ?dlen (take siz dst)"
      unfolding strnlen_def by (rule takeWhile_eq_take)
    also have "\<dots> = take ?dlen dst" using True by (simp add: min_def)
    finally show ?thesis .
  qed
  have stop: "takeWhile (\<lambda>c. c \<noteq> NUL) dst = take ?dlen dst"
  proof -
    have ne: "dropWhile (\<lambda>c. c \<noteq> NUL) (take siz dst) \<noteq> []"
    proof
      assume "dropWhile (\<lambda>c. c \<noteq> NUL) (take siz dst) = []"
      with takeWhile_dropWhile_id[of "\<lambda>c. c \<noteq> NUL" "take siz dst"]
      have "takeWhile (\<lambda>c. c \<noteq> NUL) (take siz dst) = take siz dst"
        by (simp only: append_Nil2)
      then have "?dlen = length (take siz dst)" unfolding strnlen_def by (simp only:)
      then have "?dlen = siz" using assms(1) by simp
      with True show False by simp
    qed
    then obtain x xs where dw: "dropWhile (\<lambda>c. c \<noteq> NUL) (take siz dst) = x # xs"
      by (cases "dropWhile (\<lambda>c. c \<noteq> NUL) (take siz dst)") auto
    have x: "x = NUL" using hd_dropWhile[OF ne] by (simp add: dw)
    have sp: "take siz dst = take ?dlen dst @ NUL # xs"
      using takeWhile_dropWhile_id[of "\<lambda>c. c \<noteq> NUL" "take siz dst"]
      unfolding tw dw x by simp
    have "dst = take siz dst @ drop siz dst" by simp
    then have dst: "dst = take ?dlen dst @ NUL # (xs @ drop siz dst)"
      unfolding sp by simp
    have nn: "NUL \<notin> set (take ?dlen dst)"
      unfolding tw[symmetric] by (auto dest: set_takeWhileD)
    have "takeWhile (\<lambda>c. c \<noteq> NUL) (take ?dlen dst @ NUL # (xs @ drop siz dst)) = take ?dlen dst"
      by (rule takeWhile_prefix_NUL[OF nn])
    with dst show ?thesis by simp
  qed
  have lend: "length (take ?dlen dst) = ?dlen" using True assms(1) by simp
  have tk: "take (siz - 1) (take ?dlen dst @ s) = take ?dlen dst @ take (siz - 1 - ?dlen) s"
    using True lend by simp
  have len': "length ?dst' = length dst" using True assms(1) by simp
  have pos: "length (take ?dlen dst @ take (siz - 1 - ?dlen) s) < siz"
    using True assms(1) by simp
  have trm: "NUL \<in> set (take siz ?dst')"
  proof -
    let ?A = "take ?dlen dst @ take (siz - 1 - ?dlen) s"
    have split: "?dst' = ?A @ NUL # drop (Suc (?dlen + ?m)) dst" by simp
    have "?dst' ! length ?A = NUL"
      unfolding split by (rule nth_append_length)
    then have at: "take siz ?dst' ! length ?A = NUL"
      using pos by (simp only: nth_take)
    have "length ?A < length (take siz ?dst')"
      using pos assms(1) unfolding length_take len' by simp
    then have "take siz ?dst' ! length ?A \<in> set (take siz ?dst')"
      by (rule nth_mem)
    then show ?thesis unfolding at .
  qed
  have tail: "drop siz ?dst' = drop siz dst"
  proof -
    let ?A = "take ?dlen dst @ take (siz - 1 - ?dlen) s @ [NUL]"
    have lenA: "length ?A = Suc (?dlen + ?m)"
      using True assms(1) by simp
    have k: "Suc (?dlen + ?m) \<le> siz" using True by arith
    have "drop siz (?A @ drop (Suc (?dlen + ?m)) dst) =
            drop siz ?A @ drop (siz - length ?A) (drop (Suc (?dlen + ?m)) dst)"
      by (rule drop_append)
    also have "drop siz ?A = []" using k lenA by (simp only: drop_all)
    also have "[] @ drop (siz - length ?A) (drop (Suc (?dlen + ?m)) dst) = drop siz dst"
      unfolding lenA using k by simp
    finally show ?thesis by simp
  qed
  show ?thesis
  proof (rule exI[of _ ?dst'], intro conjI impI)
    show "conf_strlcat dst (s @ NUL # r) siz = Some (?dst', ?dlen + length s)" by (rule eq)
    show "length ?dst' = length dst" by (rule len')
    show "drop siz ?dst' = drop siz dst" by (rule tail)
    show "NUL \<in> set (take siz ?dst')" by (rule trm)
    show "\<exists>g. ?dst' = take (siz - 1) (takeWhile (\<lambda>c. c \<noteq> NUL) dst @ s) @ NUL # g"
      unfolding stop tk by simp
    show "?dst' = dst" if "siz \<le> ?dlen" using that True by simp
  qed
qed

theorem conf_strlcat_bounded_witness:
  "6 \<le> length (''abc'' @ NUL # ''xxxxxxx'') \<and> NUL \<notin> set ''defgh'' \<and>
   strnlen (''abc'' @ NUL # ''xxxxxxx'') 6 = 3 \<and>
   (\<exists>dst'. conf_strlcat (''abc'' @ NUL # ''xxxxxxx'') (''defgh'' @ NUL # []) 6 = Some (dst', 8)
      \<and> length dst' = length (''abc'' @ NUL # ''xxxxxxx'')
      \<and> drop 6 dst' = ''xxxxx''
      \<and> NUL \<in> set (take 6 dst')
      \<and> (\<exists>g. dst' = ''abcde'' @ NUL # g)) \<and>
   4 \<le> length (''abcdefg'' @ [NUL]) \<and>
   strnlen (''abcdefg'' @ [NUL]) 4 = 4 \<and>
   (\<exists>dst'. conf_strlcat (''abcdefg'' @ [NUL]) (''defgh'' @ NUL # []) 4 = Some (dst', 9)
      \<and> dst' = ''abcdefg'' @ [NUL])"
proof -
  have h1: "6 \<le> length (''abc'' @ NUL # ''xxxxxxx'')" by simp
  have h2: "NUL \<notin> set ''defgh''" by (simp add: NUL_def)
  have n: "strnlen (''abc'' @ NUL # ''xxxxxxx'') 6 = 3" by (simp add: strnlen_def NUL_def)
  have t: "takeWhile (\<lambda>c. c \<noteq> NUL) (''abc'' @ NUL # ''xxxxxxx'') = ''abc''"
    by (simp add: NUL_def)
  have h3: "4 \<le> length (''abcdefg'' @ [NUL])" by simp
  have m: "strnlen (''abcdefg'' @ [NUL]) 4 = 4" by (simp add: strnlen_def NUL_def)
  have room: "\<exists>dst'. conf_strlcat (''abc'' @ NUL # ''xxxxxxx'') (''defgh'' @ NUL # []) 6 = Some (dst', 8)
      \<and> length dst' = length (''abc'' @ NUL # ''xxxxxxx'')
      \<and> drop 6 dst' = ''xxxxx''
      \<and> NUL \<in> set (take 6 dst')
      \<and> (\<exists>g. dst' = ''abcde'' @ NUL # g)"
    using conf_strlcat_bounded[OF h1 h2, of "[]"] unfolding n t by simp
  have full: "\<exists>dst'. conf_strlcat (''abcdefg'' @ [NUL]) (''defgh'' @ NUL # []) 4 = Some (dst', 9)
      \<and> dst' = ''abcdefg'' @ [NUL]"
    using conf_strlcat_bounded[OF h3 h2, of "[]"] unfolding m by simp
  show ?thesis
    using h1 h2 n room h3 m full by (intro conjI)
qed

end
